theory Spec2Isabelle
  imports Complex_Main
begin

section \<open>RT0-P0 discretisation (porepy/numerics/fem/rt0.py)\<close>

text \<open>
  The development embeds the class \<open>RT0\<close> of \<open>rt0.py\<close>. Arrays of floats are lists of
  reals (exact arithmetic: rounding, overflow, \<open>inf\<close> and \<open>nan\<close> are outside the model), a
  two-dimensional array is the list of its rows, an exception is a value of \<open>error\<close>.
\<close>

subsection \<open>Errors and arrays\<close>

datatype error = KeyError | ValueError | AttributeError | AssertionError | IndexError | LinAlgError

type_synonym vec = "real list"
type_synonym mat = "real list list"

definition bind_err :: "error + 'a \<Rightarrow> ('a \<Rightarrow> error + 'b) \<Rightarrow> error + 'b" where
  "bind_err r f = (case r of Inl e \<Rightarrow> Inl e | Inr x \<Rightarrow> f x)"

text \<open>\<open>np.logical_not\<close>, \<open>np.logical_and\<close> (with numpy's broadcasting of a length-one
  operand), \<open>np.any\<close> and \<open>np.where(...)[0]\<close> on one-dimensional boolean arrays.\<close>

definition logical_not :: "bool list \<Rightarrow> bool list" where
  "logical_not xs = map Not xs"

definition logical_and :: "bool list \<Rightarrow> bool list \<Rightarrow> error + bool list" where
  "logical_and xs ys =
     (if length xs = length ys then Inr (map2 (\<and>) xs ys)
      else if length xs = 1 then Inr (map (\<lambda>y. hd xs \<and> y) ys)
      else if length ys = 1 then Inr (map (\<lambda>x. x \<and> hd ys) xs)
      else Inl ValueError)"

definition np_any :: "bool list \<Rightarrow> bool" where
  "np_any xs = (True \<in> set xs)"

definition np_where :: "bool list \<Rightarrow> nat list" where
  "np_where xs = filter (\<lambda>i. xs ! i) [0..<length xs]"

text \<open>Indexing with an integer array, \<open>xs[idx]\<close>: numpy raises IndexError when an index is
  out of bounds.\<close>

definition take_idx :: "'a list \<Rightarrow> nat list \<Rightarrow> error + 'a list" where
  "take_idx xs idx =
     (if \<forall>i \<in> set idx. i < length xs then Inr (map (\<lambda>i. xs ! i) idx) else Inl IndexError)"

text \<open>Assignment through an integer array, \<open>xs[idx] = vals\<close>, where \<open>vals\<close> has one value
  for each index.\<close>

definition set_at :: "'a list \<Rightarrow> nat list \<Rightarrow> 'a list \<Rightarrow> error + 'a list" where
  "set_at xs idx vals =
     (if \<forall>i \<in> set idx. i < length xs
      then Inr (fold (\<lambda>(i, v) acc. acc[i := v]) (zip idx vals) xs)
      else Inl IndexError)"

text \<open>\<open>xs[idx] += vals\<close> reads \<open>xs[idx]\<close>, adds, and assigns the sums back.\<close>

definition iadd_at :: "vec \<Rightarrow> nat list \<Rightarrow> vec \<Rightarrow> error + vec" where
  "iadd_at xs idx vals =
     bind_err (take_idx xs idx) (\<lambda>old. set_at xs idx (map2 (+) old vals))"

subsection \<open>Two-dimensional arrays\<close>

text \<open>
  A matrix is built from its shape and its entries. An array without rows has no column
  count in this representation; the arrays of \<open>rt0.py\<close> that reach a product or a transpose
  have at least one row and one column.
\<close>

definition mk_mat :: "nat \<Rightarrow> nat \<Rightarrow> (nat \<Rightarrow> nat \<Rightarrow> real) \<Rightarrow> mat" where
  "mk_mat r c f = map (\<lambda>i. map (\<lambda>j. f i j) [0..<c]) [0..<r]"

definition nrows :: "mat \<Rightarrow> nat" where
  "nrows A = length A"

definition ncols :: "mat \<Rightarrow> nat" where
  "ncols A = (case A of [] \<Rightarrow> 0 | r # _ \<Rightarrow> length r)"

definition is_mat :: "nat \<Rightarrow> nat \<Rightarrow> mat \<Rightarrow> bool" where
  "is_mat r c A \<longleftrightarrow> length A = r \<and> (\<forall>row \<in> set A. length row = c)"

text \<open>\<open>A.T\<close>\<close>

definition np_T :: "mat \<Rightarrow> mat" where
  "np_T A = mk_mat (ncols A) (nrows A) (\<lambda>i j. A ! j ! i)"

text \<open>The matrix product on arrays whose shapes agree, and \<open>np.dot\<close>, which checks them.\<close>

definition mat_mul :: "mat \<Rightarrow> mat \<Rightarrow> mat" where
  "mat_mul A B =
     mk_mat (nrows A) (ncols B) (\<lambda>i j. sum_list (map (\<lambda>k. A ! i ! k * B ! k ! j) [0..<ncols A]))"

definition dot :: "mat \<Rightarrow> mat \<Rightarrow> error + mat" where
  "dot A B = (if ncols A = nrows B then Inr (mat_mul A B) else Inl ValueError)"

definition dot_vec :: "mat \<Rightarrow> vec \<Rightarrow> error + vec" where
  "dot_vec A x =
     (if ncols A = length x then Inr (map (\<lambda>row. sum_list (map2 (*) row x)) A)
      else Inl ValueError)"

text \<open>\<open>np.diagflat(v, k)\<close>: the square matrix with \<open>v\<close> on the \<open>k\<close>-th upper diagonal.\<close>

definition diagflat :: "vec \<Rightarrow> nat \<Rightarrow> mat" where
  "diagflat v k =
     mk_mat (length v + k) (length v + k) (\<lambda>i j. if j = i + k then v ! i else 0)"

definition mat_add :: "mat \<Rightarrow> mat \<Rightarrow> mat" where
  "mat_add A B = map2 (map2 (+)) A B"

definition mat_div :: "mat \<Rightarrow> real \<Rightarrow> mat" where
  "mat_div A s = map (map (\<lambda>x. x / s)) A"

definition mat_scale :: "real \<Rightarrow> mat \<Rightarrow> mat" where
  "mat_scale s A = map (map (\<lambda>x. s * x)) A"

definition mat_neg :: "mat \<Rightarrow> mat" where
  "mat_neg A = map (map uminus) A"

text \<open>\<open>scipy.linalg.block_diag\<close>\<close>

fun block_diag :: "mat list \<Rightarrow> mat" where
  "block_diag [] = []"
| "block_diag (B # Bs) =
     (let rest = block_diag Bs in
      map (\<lambda>row. row @ replicate (ncols rest) 0) B
      @ map (\<lambda>row. replicate (ncols B) 0 @ row) rest)"

text \<open>Subtraction of two-dimensional arrays with numpy's broadcasting: along each axis the
  lengths are equal or one of them is 1.\<close>

definition np_sub :: "mat \<Rightarrow> mat \<Rightarrow> error + mat" where
  "np_sub A B =
     (let ra = nrows A; ca = ncols A; rb = nrows B; cb = ncols B in
      if (ra = rb \<or> ra = 1 \<or> rb = 1) \<and> (ca = cb \<or> ca = 1 \<or> cb = 1)
      then Inr (mk_mat (if ra = 1 then rb else ra) (if ca = 1 then cb else ca)
             (\<lambda>i j. A ! (if ra = 1 then 0 else i) ! (if ca = 1 then 0 else j)
                   - B ! (if rb = 1 then 0 else i) ! (if cb = 1 then 0 else j)))
      else Inl ValueError)"

text \<open>\<open>A[:, idx]\<close> with an integer array \<open>idx\<close>; an empty integer array selects no
  column.\<close>

definition take_cols :: "mat \<Rightarrow> nat list \<Rightarrow> error + mat" where
  "take_cols A idx =
     (if \<forall>j \<in> set idx. j < ncols A
      then Inr (map (\<lambda>row. map (\<lambda>j. row ! j) idx) A) else Inl IndexError)"

text \<open>A slice \<open>xs[a:b]\<close> of a one-dimensional array never raises.\<close>

definition np_slice :: "'a list \<Rightarrow> nat \<Rightarrow> nat \<Rightarrow> 'a list" where
  "np_slice xs a b = take (b - a) (drop a xs)"

text \<open>\<open>dia_matrix((data, 0), shape=(n, m))\<close> as a dense matrix: \<open>data\<close> on the main
  diagonal, as far as it reaches.\<close>

definition dia_matrix :: "vec \<Rightarrow> nat \<Rightarrow> nat \<Rightarrow> mat" where
  "dia_matrix data n m = mk_mat n m (\<lambda>i j. if i = j \<and> j < length data then data ! j else 0)"

text \<open>\<open>np.linalg.inv\<close> in exact arithmetic: the adjugate over the determinant, LinAlgError
  for an array that is not square or is singular. The determinant is expanded along the
  first row.\<close>

definition remove_nth :: "nat \<Rightarrow> 'a list \<Rightarrow> 'a list" where
  "remove_nth k xs = take k xs @ drop (Suc k) xs"

fun det :: "mat \<Rightarrow> real" where
  "det [] = 1"
| "det (r # rs) =
     sum_list (map (\<lambda>j. (- 1) ^ j * r ! j * det (map (remove_nth j) rs)) [0..<length r])"

definition minor :: "mat \<Rightarrow> nat \<Rightarrow> nat \<Rightarrow> mat" where
  "minor A i j = map (remove_nth j) (remove_nth i A)"

definition linalg_inv :: "mat \<Rightarrow> error + mat" where
  "linalg_inv A =
     (let n = length A in
      if \<not> is_mat n n A then Inl LinAlgError
      else if det A = 0 then Inl LinAlgError
      else Inr (mk_mat n n (\<lambda>i j. (- 1) ^ (i + j) * det (minor A j i) / det A)))"

text \<open>A symmetric matrix \<open>K\<close> is positive definite when \<open>x\<^sup>T K x\<close> is positive for every
  vector \<open>x\<close> other than zero.\<close>

definition quad_form :: "mat \<Rightarrow> vec \<Rightarrow> real" where
  "quad_form K x = sum_list (map2 (*) x (map (\<lambda>row. sum_list (map2 (*) row x)) K))"

definition pos_def :: "mat \<Rightarrow> bool" where
  "pos_def K \<longleftrightarrow>
     (\<forall>x. length x = length K \<and> (\<exists>v \<in> set x. v \<noteq> 0) \<longrightarrow> 0 < quad_form K x)"

subsection \<open>Grids, boundary conditions and the data dictionary\<close>

text \<open>
  The grid classes are not among the sources; a grid is the record of the attributes that
  \<open>rt0.py\<close> reads. The sparse matrices \<open>g.cell_faces\<close> (faces by cells, entries \<open>\<plusminus>1\<close>) and
  \<open>g.face_nodes\<close> (nodes by faces, boolean) are stored by columns, as scipy's csc format
  does, in canonical form (row indices sorted, no duplicates): column \<open>c\<close> of \<open>cell_faces\<close>
  is the list of the pairs (face, sign) of cell \<open>c\<close>, column \<open>f\<close> of \<open>face_nodes\<close> lists the
  nodes of face \<open>f\<close>.
\<close>

record grid =
  dim :: nat
  num_cells :: nat
  num_faces :: nat
  cell_faces :: "(nat \<times> real) list list"
  face_nodes :: "nat list list"
  cell_volumes :: vec
  face_areas :: vec

text \<open>What \<open>ndof\<close> may be given: a grid, a mortar grid (of which only \<open>num_cells\<close> is read),
  or an object of another class, named by its class.\<close>

datatype entity = Grid grid | MortarGrid nat | OtherObject string

record bound_cond =
  is_dir :: "bool list"
  is_neu :: "bool list"
  is_rob :: "bool list"
  is_internal :: "bool list"
  robin_weight :: vec

text \<open>A permeability tensor object holds \<open>perm\<close>, an array of shape (3, 3, num_cells); the
  model keeps the list of the matrices \<open>perm[:, :, c]\<close>. Tensor objects are mutable and live
  in a store; a reference is an index into the store.\<close>

record tensor =
  perm :: "mat list"

type_synonym store = "tensor list"

text \<open>The parameter object \<open>data["param"]\<close>: \<open>get_tensor\<close> returns a reference,
  \<open>get_bc\<close> and \<open>get_bc_val\<close> may return None.\<close>

record parameters =
  get_tensor :: nat
  get_bc :: "bound_cond option"
  get_bc_val :: "vec option"
  get_aperture :: vec
  get_source :: vec

record data_dict =
  param :: "parameters option"
  is_tangential :: "bool option"

subsection \<open>ndof\<close>

definition ndof :: "entity \<Rightarrow> error + nat" where
  "ndof e = (case e of
       Grid g \<Rightarrow> Inr (num_cells g + num_faces g)
     | MortarGrid n \<Rightarrow> Inr n
     | OtherObject _ \<Rightarrow> Inl ValueError)"

subsection \<open>scipy.sparse.find and the face signs\<close>

text \<open>\<open>sps.find\<close> returns the row indices, column indices and values of the nonzero
  entries, column by column.\<close>

definition sps_find :: "(nat \<times> real) list list \<Rightarrow> (nat \<times> nat \<times> real) list" where
  "sps_find cols =
     concat (map (\<lambda>(c, col). map (\<lambda>(f, v). (f, c, v)) (filter (\<lambda>(f, v). v \<noteq> 0) col))
                 (zip [0..<length cols] cols))"

fun first_index :: "nat \<Rightarrow> nat list \<Rightarrow> nat" where
  "first_index x [] = 0"
| "first_index x (y # ys) = (if x = y then 0 else Suc (first_index x ys))"

text \<open>\<open>np.unique(faces, return_index=True)[1]\<close>: for each distinct value, in increasing
  order, the index of its first occurrence.\<close>

definition unique_index :: "nat list \<Rightarrow> nat list" where
  "unique_index xs = map (\<lambda>u. first_index u xs) (sort (remdups xs))"

text \<open>Lines 277-278 of \<open>rhs\<close>: the sign of each face, taken where the face first occurs.\<close>

definition face_sign :: "grid \<Rightarrow> vec" where
  "face_sign g =
     (let found = sps_find (cell_faces g);
          faces = map fst found;
          sign = map (\<lambda>t. snd (snd t)) found
      in map (\<lambda>i. sign ! i) (unique_index faces))"

subsection \<open>rhs\<close>

text \<open>Lines 273-292: the boundary terms, once both the descriptor and the values are there.\<close>

definition rhs_bc :: "grid \<Rightarrow> bound_cond \<Rightarrow> vec \<Rightarrow> real \<Rightarrow> vec \<Rightarrow> error + vec" where
  "rhs_bc g bc bc_val bc_weight rhs0 =
     bind_err (logical_and (is_neu bc) (logical_not (is_internal bc))) (\<lambda>neu.
     bind_err (logical_and (is_dir bc) (logical_not (is_internal bc))) (\<lambda>dir.
     bind_err (logical_and (is_rob bc) (logical_not (is_internal bc))) (\<lambda>rob.
     let sign = face_sign g in
     bind_err
       (if np_any dir then
          (let idx = np_where dir in
           bind_err (take_idx sign idx) (\<lambda>s.
           bind_err (take_idx bc_val idx) (\<lambda>v.
           iadd_at rhs0 idx (map2 (\<lambda>a b. - a * b) s v))))
        else Inr rhs0) (\<lambda>rhs1.
     bind_err
       (if np_any rob then
          (let idx = np_where rob in
           bind_err (take_idx sign idx) (\<lambda>s.
           bind_err (take_idx bc_val idx) (\<lambda>v.
           bind_err (take_idx (robin_weight bc) idx) (\<lambda>rw.
           iadd_at rhs1 idx (map2 (\<lambda>ab r. ab / r) (map2 (\<lambda>a b. - a * b) s v) rw)))))
        else Inr rhs1) (\<lambda>rhs2.
     if np_any neu then
       (let idx = np_where neu in
        bind_err (take_idx sign idx) (\<lambda>s.
        bind_err (take_idx bc_val idx) (\<lambda>v.
        set_at rhs2 idx (map2 (\<lambda>sw b. sw * b) (map (\<lambda>a. a * bc_weight) s) v))))
     else Inr rhs2)))))"

definition rhs :: "grid \<Rightarrow> data_dict \<Rightarrow> real \<Rightarrow> error + vec" where
  "rhs g data bc_weight =
     (case param data of
        None \<Rightarrow> Inl KeyError
      | Some p \<Rightarrow>
          let f = get_source p in
          if dim g = 0 then Inr (0 # f)
          else
            let bc = get_bc p; bc_val = get_bc_val p in
            if (bc = None) \<noteq> (bc_val = None) then Inl AssertionError
            else
              bind_err (ndof (Grid g)) (\<lambda>n.
                let rhs0 = replicate n 0 in
                (case (bc, bc_val) of
                   (None, _) \<Rightarrow> Inr rhs0
                 | (Some b, None) \<Rightarrow> Inl AssertionError
                 | (Some b, Some v) \<Rightarrow> rhs_bc g b v bc_weight rhs0)))"

subsection \<open>The geometry mapper\<close>

text \<open>
  \<open>pp.cg.map_grid\<close> is not among the sources. Its result, the tuple
  \<open>(c_centers, f_normals, f_centers, R, dim, node_coords)\<close>, is an argument of the
  functions that call it: the coordinates in the reference frame (one row for each active
  dimension), the rotation \<open>R\<close> (3 by 3) and the mask \<open>dim\<close> of the active dimensions.
\<close>

record geometry =
  c_centers :: mat
  f_normals :: mat
  f_centers :: mat
  rot_R :: mat
  dim_mask :: "bool list"
  node_coords :: mat

subsection \<open>massHdiv\<close>

text \<open>\<open>coord.flatten("F").reshape((-1, 1)) * np.ones((1, n))\<close>: the entries of \<open>coord\<close>
  column by column, each repeated along a row of length \<open>n\<close>.\<close>

definition flatten_F :: "mat \<Rightarrow> vec" where
  "flatten_F A = concat (np_T A)"

definition col_times_ones :: "vec \<Rightarrow> nat \<Rightarrow> mat" where
  "col_times_ones xs n = map (\<lambda>x. map (\<lambda>y. x * y) (replicate n 1)) xs"

text \<open>\<open>np.tile(A, (n, 1))\<close>\<close>

definition tile_rows :: "mat \<Rightarrow> nat \<Rightarrow> mat" where
  "tile_rows A n = concat (replicate n A)"

text \<open>\<open>massHdiv(K, c_volume, coord, sign, dim, HB)\<close>, with \<open>d\<close> for the argument \<open>dim\<close>.\<close>

definition massHdiv :: "mat \<Rightarrow> real \<Rightarrow> mat \<Rightarrow> vec \<Rightarrow> nat \<Rightarrow> mat \<Rightarrow> error + mat" where
  "massHdiv K c_volume coord sign d HB =
     bind_err (linalg_inv K) (\<lambda>inv_K0.
     let inv_K = mat_div (block_diag (replicate (d + 1) inv_K0)) c_volume;
         coord1 = take d coord
     in
     bind_err (np_sub (col_times_ones (flatten_F coord1) (d + 1)) (tile_rows coord1 (d + 1))) (\<lambda>N.
     let C = diagflat sign 0 in
     bind_err (dot N C) (\<lambda>m1.
     bind_err (dot inv_K m1) (\<lambda>m2.
     bind_err (dot HB m2) (\<lambda>m3.
     bind_err (dot (np_T N) m3) (\<lambda>m4.
     dot (np_T C) m4))))))"

text \<open>Lines 160-165 of \<open>matrix\<close>: the reference weights \<open>HB\<close>. \<open>matrix\<close> reaches them with
  \<open>g.dim > 0\<close> only.\<close>

definition arange_step :: "nat \<Rightarrow> nat \<Rightarrow> nat list" where
  "arange_step stop step = map (\<lambda>k. k * step) [0..<(stop + step - 1) div step]"

definition HB_matrix :: "nat \<Rightarrow> mat" where
  "HB_matrix d =
     (let size_HB = d * (d + 1);
          HB0 = fold (\<lambda>it HB. mat_add HB (diagflat (replicate (size_HB - it) 1) it))
                  (arange_step size_HB d) (mk_mat size_HB size_HB (\<lambda>i j. 0));
          HB1 = mat_add HB0 (np_T HB0)
      in mat_div HB1 (real (d * d * (d + 1) * (d + 2))))"

subsection \<open>opposite_side_node\<close>

text \<open>The \<open>indptr\<close> array of a matrix stored by columns.\<close>

definition indptr :: "'a list list \<Rightarrow> nat list" where
  "indptr cols = map (\<lambda>k. length (concat (take k cols))) [0..<Suc (length cols)]"

text \<open>\<open>fnodes\<close> is the argument \<open>face_nodes\<close>, and \<open>nodes\<close> the array of the row
  indices that \<open>sps.find(g.face_nodes)\<close> returns. A
  list of arrays of different lengths is no rectangular array: \<open>np.unique\<close> refuses it, and
  the result of \<open>np.array(opposite_node).flatten()\<close> then cannot index an array.\<close>

definition opposite_side_node :: "nat list list \<Rightarrow> nat list \<Rightarrow> nat list \<Rightarrow> error + nat list" where
  "opposite_side_node fnodes nodes faces_loc =
     (let ip = indptr fnodes in
      if \<exists>f \<in> set faces_loc. Suc f \<ge> length ip then Inl IndexError
      else
        let fn = map (\<lambda>f. np_slice nodes (ip ! f) (ip ! Suc f)) faces_loc in
        if \<exists>a \<in> set fn. \<exists>b \<in> set fn. length a \<noteq> length b then Inl ValueError
        else
          let nodes_loc = sort (remdups (concat fn));
              opposite_node = map (\<lambda>f. filter (\<lambda>x. x \<notin> set f) nodes_loc) fn
          in
          if \<exists>a \<in> set opposite_node. \<exists>b \<in> set opposite_node. length a \<noteq> length b
          then Inl IndexError
          else Inr (concat opposite_node))"

text \<open>\<open>A[:, node]\<close> with \<open>node\<close> the array that \<open>opposite_side_node\<close> returns for
  \<open>faces_loc\<close>. Without a face the list \<open>opposite_node\<close> is empty and \<open>np.array([])\<close> is an
  array of floats, which cannot index: IndexError. With a face it is an array of
  integers, which may be empty (a cell with one face).\<close>

definition take_opposite :: "mat \<Rightarrow> nat list \<Rightarrow> nat list \<Rightarrow> error + mat" where
  "take_opposite A faces_loc node =
     (if faces_loc = [] then Inl IndexError else take_cols A node)"

subsection \<open>matrix\<close>

text \<open>Modelled from the spec: the class of the permeability tensor (\<open>SecondOrderTensor\<close>)
  is not among the sources. \<open>k.copy()\<close> makes a new object with the same entries,
  \<open>k.rotate(R)\<close> replaces, in place, each \<open>perm[:, :, c]\<close> by its rotation into the local
  frame, \<open>R perm[:, :, c] R\<^sup>T\<close>.\<close>

definition tensor_copy :: "store \<Rightarrow> nat \<Rightarrow> nat \<times> store" where
  "tensor_copy s k = (length s, s @ [s ! k])"

definition tensor_rotate :: "store \<Rightarrow> nat \<Rightarrow> mat \<Rightarrow> store" where
  "tensor_rotate s k Rm =
     s[k := (s ! k)\<lparr>perm := map (\<lambda>P. mat_mul (mat_mul Rm P) (np_T Rm)) (perm (s ! k))\<rparr>]"

text \<open>\<open>np.delete(xs, idx)\<close> along one axis\<close>

definition np_delete :: "'a list \<Rightarrow> nat list \<Rightarrow> 'a list" where
  "np_delete xs idx = map (\<lambda>i. xs ! i) (filter (\<lambda>i. i \<notin> set idx) [0..<length xs])"

text \<open>Lines 141-148: the tensor that the assembly reads. In dimension below 3, and unless
  the data say that the permeability is tangential already, it is a rotated copy with the
  inactive dimensions removed.\<close>

definition local_tensor :: "store \<Rightarrow> nat \<Rightarrow> grid \<Rightarrow> data_dict \<Rightarrow> geometry \<Rightarrow> nat \<times> store" where
  "local_tensor s k g data mg =
     (if \<not> (is_tangential data = Some True) then
        (if dim g < 3 then
           (let (k1, s1) = tensor_copy s k;
                s2 = tensor_rotate s1 k1 (rot_R mg);
                remove_dim = np_where (logical_not (dim_mask mg));
                p1 = map (\<lambda>P. np_delete P remove_dim) (perm (s2 ! k1));
                p2 = map (\<lambda>P. map (\<lambda>row. np_delete row remove_dim) P) p1
            in (k1, s2[k1 := (s2 ! k1)\<lparr>perm := p2\<rparr>]))
         else (k, s))
      else (k, s))"

text \<open>Lines 169-192: the triplets of one cell, \<open>(I, J, dataIJ)\<close>. \<open>faces\<close> and \<open>sign\<close> are the
  arrays of \<open>sps.find(g.cell_faces)\<close> sorted by cell. The source writes the triplets into
  buffers of \<open>(dim + 1)\<^sup>2 * num_cells\<close> entries; \<open>massHdiv\<close> returns only for a cell with
  \<open>dim + 1\<close> faces (its products fail otherwise), so every pass that returns fills
  \<open>(dim + 1)\<^sup>2\<close> entries and the model collects the triplets in a list.\<close>

definition cell_triplets ::
  "grid \<Rightarrow> vec \<Rightarrow> mat list \<Rightarrow> geometry \<Rightarrow> nat list \<Rightarrow> vec \<Rightarrow> nat list \<Rightarrow> mat \<Rightarrow> nat
     \<Rightarrow> error + (nat \<times> nat \<times> real) list" where
  "cell_triplets g a k_perm mg faces sign nodes HB c =
     (let ip = indptr (cell_faces g) in
      if Suc c \<ge> length ip then Inl IndexError
      else
        let faces_loc = np_slice faces (ip ! c) (ip ! Suc c) in
        bind_err (opposite_side_node (face_nodes g) nodes faces_loc) (\<lambda>node.
        bind_err (take_opposite (node_coords mg) faces_loc node) (\<lambda>coord_loc.
        if c \<ge> length a \<or> c \<ge> length k_perm \<or> c \<ge> length (cell_volumes g) then Inl IndexError
        else
          bind_err (massHdiv (mat_scale (a ! c) (map (take (dim g)) (take (dim g) (k_perm ! c))))
                      (cell_volumes g ! c) coord_loc (np_slice sign (ip ! c) (ip ! Suc c))
                      (dim g) HB) (\<lambda>A.
          Inr (zip (concat (map (\<lambda>f. replicate (length faces_loc) f) faces_loc))
                (zip (concat (replicate (length faces_loc) faces_loc)) (concat A)))))))"

fun all_triplets :: "(nat \<Rightarrow> error + (nat \<times> nat \<times> real) list) \<Rightarrow> nat list
     \<Rightarrow> error + (nat \<times> nat \<times> real) list" where
  "all_triplets f [] = Inr []"
| "all_triplets f (c # cs) =
     bind_err (f c) (\<lambda>t. bind_err (all_triplets f cs) (\<lambda>ts. Inr (t @ ts)))"

text \<open>\<open>sps.coo_matrix((dataIJ, (I, J)))\<close> as a dense matrix: the shape is read off the
  largest indices, entries with the same indices are summed; without any entry the shape
  cannot be inferred.\<close>

definition coo_matrix :: "(nat \<times> nat \<times> real) list \<Rightarrow> error + mat" where
  "coo_matrix ts =
     (if ts = [] then Inl ValueError
      else Inr (mk_mat (Suc (fold max (map fst ts) 0)) (Suc (fold max (map (\<lambda>t. fst (snd t)) ts) 0))
             (\<lambda>i j. sum_list (map (\<lambda>(i', j', v). if i' = i \<and> j' = j then v else 0) ts))))"

text \<open>\<open>g.cell_faces\<close> as a dense matrix of shape (num_faces, number of columns).\<close>

definition cell_faces_dense :: "grid \<Rightarrow> mat" where
  "cell_faces_dense g =
     mk_mat (num_faces g) (length (cell_faces g))
       (\<lambda>f c. sum_list (map snd (filter (\<lambda>(f', v). f' = f) (cell_faces g ! c))))"

text \<open>\<open>sps.bmat([[mass, div.T], [div, None]])\<close>, with \<open>dv\<close> for \<open>div\<close>: the heights and
  the widths of the blocks must agree.\<close>

definition bmat :: "mat \<Rightarrow> mat \<Rightarrow> mat \<Rightarrow> error + mat" where
  "bmat mass divT dv =
     (if nrows mass = nrows divT \<and> ncols mass = ncols dv
      then Inr (map2 (@) mass divT @ map (\<lambda>row. row @ replicate (ncols divT) 0) dv)
      else Inl ValueError)"

text \<open>\<open>sps.linalg.norm(mass, np.inf)\<close>: the largest row sum of absolute values.\<close>

definition norm_inf :: "mat \<Rightarrow> real" where
  "norm_inf A = fold max (map (\<lambda>row. sum_list (map abs row)) A) 0"

text \<open>Lines 125-199: the saddle-point matrix before the boundary conditions, and the
  weight.\<close>

definition saddle_point ::
  "grid \<Rightarrow> vec \<Rightarrow> mat list \<Rightarrow> geometry \<Rightarrow> bool \<Rightarrow> error + mat \<times> real" where
  "saddle_point g a k_perm mg bc_weight =
     (let found = sort_key (\<lambda>t. fst (snd t)) (sps_find (cell_faces g));
          faces = map fst found;
          sign = map (\<lambda>t. snd (snd t)) found;
          nodes = concat (face_nodes g);
          HB = HB_matrix (dim g)
      in
      bind_err (all_triplets (cell_triplets g a k_perm mg faces sign nodes HB) [0..<num_cells g])
        (\<lambda>ts.
      bind_err (coo_matrix ts) (\<lambda>mass.
      let dv = mat_neg (np_T (cell_faces_dense g)) in
      bind_err (bmat mass (np_T dv) dv) (\<lambda>M.
      Inr (M, if bc_weight then norm_inf mass else 1)))))"

text \<open>Lines 206-219: a Neumann face that is not internal has its row cleared and the weight
  put on the diagonal.\<close>

definition neumann_rows :: "mat \<Rightarrow> nat list \<Rightarrow> real \<Rightarrow> error + mat" where
  "neumann_rows M rows nrm =
     (if \<exists>row \<in> set rows. row \<ge> nrows M then Inl IndexError
      else
        let M0 = map (\<lambda>i. if i \<in> set rows then map (\<lambda>x. 0) (M ! i) else M ! i) [0..<nrows M];
            d0 = map (\<lambda>i. M0 ! i ! i) [0..<min (nrows M0) (ncols M0)]
        in
        bind_err (set_at d0 rows (replicate (length rows) nrm)) (\<lambda>d.
        Inr (mk_mat (nrows M0) (ncols M0) (\<lambda>i j. if i = j then d ! i else M0 ! i ! j))))"

text \<open>Lines 221-229: a Robin face that is not internal has
  \<open>1 / (robin_weight * face_area)\<close> added to its diagonal entry.\<close>

definition robin_diag :: "grid \<Rightarrow> bound_cond \<Rightarrow> mat \<Rightarrow> nat list \<Rightarrow> error + mat" where
  "robin_diag g bc M idx =
     bind_err (ndof (Grid g)) (\<lambda>n.
     bind_err (take_idx (robin_weight bc) idx) (\<lambda>rw.
     bind_err (take_idx (face_areas g) idx) (\<lambda>fa.
     bind_err (set_at (replicate n 0) idx (map2 (\<lambda>r a. 1 / (r * a)) rw fa)) (\<lambda>dat.
     if nrows M = n \<and> ncols M = n then Inr (mat_add M (dia_matrix dat n n))
     else Inl ValueError))))"

text \<open>Lines 206-229. Without a descriptor, reading \<open>bc.is_neu\<close> raises AttributeError.\<close>

definition boundary_conditions ::
  "grid \<Rightarrow> bound_cond option \<Rightarrow> mat \<Rightarrow> real \<Rightarrow> error + mat" where
  "boundary_conditions g bc M nrm =
     (case bc of
        None \<Rightarrow> Inl AttributeError
      | Some b \<Rightarrow>
          bind_err (logical_and (is_neu b) (logical_not (is_internal b))) (\<lambda>neu.
          bind_err (if np_any neu then neumann_rows M (np_where neu) nrm else Inr M) (\<lambda>M1.
          bind_err (logical_and (is_rob b) (logical_not (is_internal b))) (\<lambda>rob.
          if np_any rob then robin_diag g b M1 (np_where rob) else Inr M1))))"

text \<open>\<open>matrix\<close> returns the matrix, and the weight when \<open>bc_weight\<close> is set; the store is
  returned as the call leaves it. A reference that names no object of the store stands for
  a parameter object whose tensor was never set: \<open>get_tensor\<close> raises AttributeError.\<close>

definition matrix ::
  "grid \<Rightarrow> data_dict \<Rightarrow> bool \<Rightarrow> geometry \<Rightarrow> store \<Rightarrow> (error + mat \<times> real option) \<times> store" where
  "matrix g data bc_weight mg s =
     (if dim g = 0 then
        (bind_err (ndof (Grid g)) (\<lambda>n.
           Inr (dia_matrix [1, 0] n n, if bc_weight then Some 1 else None)), s)
      else
        (case param data of
           None \<Rightarrow> (Inl KeyError, s)
         | Some p \<Rightarrow>
             let k = get_tensor p; bc = get_bc p; a = get_aperture p in
             if k \<ge> length s then (Inl AttributeError, s)
             else
               let (k1, s1) = local_tensor s k g data mg in
               (bind_err (saddle_point g a (perm (s1 ! k1)) mg bc_weight) (\<lambda>(M, nrm).
                bind_err (boundary_conditions g bc M nrm) (\<lambda>M1.
                Inr (M1, if bc_weight then Some nrm else None))), s1)))"

subsection \<open>project_u\<close>

text \<open>\<open>np.einsum("ij,ij->j", A, B)\<close>; along each axis the lengths are equal or one of them
  is 1, as for \<open>np_sub\<close>.\<close>

definition einsum_cols :: "mat \<Rightarrow> mat \<Rightarrow> error + vec" where
  "einsum_cols A B =
     (let ra = nrows A; ca = ncols A; rb = nrows B; cb = ncols B in
      if (ra = rb \<or> ra = 1 \<or> rb = 1) \<and> (ca = cb \<or> ca = 1 \<or> cb = 1)
      then Inr (map (\<lambda>j. sum_list (map
               (\<lambda>i. A ! (if ra = 1 then 0 else i) ! (if ca = 1 then 0 else j)
                  * B ! (if rb = 1 then 0 else i) ! (if cb = 1 then 0 else j))
               [0..<(if ra = 1 then rb else ra)]))
             [0..<(if ca = 1 then cb else ca)])
      else Inl ValueError)"

text \<open>\<open>A / v\<close>: each column of \<open>A\<close> divided by the entry of \<open>v\<close> of that column.\<close>

definition div_cols :: "mat \<Rightarrow> vec \<Rightarrow> error + mat" where
  "div_cols A v =
     (if ncols A = length v then Inr (map (\<lambda>row. map2 (\<lambda>x y. x / y) row v) A)
      else Inl ValueError)"

text \<open>\<open>P[msk, c] = v\<close>: the mask has the length of the first axis, \<open>v\<close> has one value for
  each selected row, or a single value for all of them.\<close>

definition set_masked_col :: "mat \<Rightarrow> bool list \<Rightarrow> nat \<Rightarrow> vec \<Rightarrow> error + mat" where
  "set_masked_col P msk c v =
     (if length msk \<noteq> nrows P \<or> c \<ge> ncols P then Inl IndexError
      else
        let rows = np_where msk in
        if length v = length rows
        then Inr (fold (\<lambda>(i, x) acc. acc[i := (acc ! i)[c := x]]) (zip rows v) P)
        else if length v = 1
        then Inr (fold (\<lambda>i acc. acc[i := (acc ! i)[c := hd v]]) rows P)
        else Inl ValueError)"

text \<open>\<open>P[:, c] = v\<close>\<close>

definition set_col :: "mat \<Rightarrow> nat \<Rightarrow> vec \<Rightarrow> error + mat" where
  "set_col P c v =
     (if c \<ge> ncols P then Inl IndexError
      else if length v = nrows P then Inr (map2 (\<lambda>row x. row[c := x]) P v)
      else if length v = 1 then Inr (map (\<lambda>row. row[c := hd v]) P)
      else Inl ValueError)"

text \<open>Lines 370-382: the local faces of cell \<open>c\<close>, \<open>delta_c\<close> and the denominators
  \<open>np.einsum("ij,ij->j", delta_f, normals)\<close> of \<open>Pi\<close>.\<close>

definition project_den ::
  "grid \<Rightarrow> geometry \<Rightarrow> nat list \<Rightarrow> nat list \<Rightarrow> nat \<Rightarrow> error + nat list \<times> mat \<times> vec" where
  "project_den g mg faces nodes c =
     (let ip = indptr (cell_faces g) in
      if Suc c \<ge> length ip then Inl IndexError
      else
        let faces_loc = np_slice faces (ip ! c) (ip ! Suc c) in
        bind_err (opposite_side_node (face_nodes g) nodes faces_loc) (\<lambda>node.
        bind_err (take_cols (c_centers mg) [c]) (\<lambda>cc.
        let center = map (\<lambda>row. replicate (length node) (hd row)) cc in
        bind_err (take_opposite (node_coords mg) faces_loc node) (\<lambda>nc.
        bind_err (np_sub center nc) (\<lambda>delta_c.
        bind_err (take_cols (f_centers mg) faces_loc) (\<lambda>fc.
        bind_err (np_sub fc nc) (\<lambda>delta_f.
        bind_err (take_cols (f_normals mg) faces_loc) (\<lambda>normals.
        bind_err (einsum_cols delta_f normals) (\<lambda>den.
        Inr (faces_loc, delta_c, den))))))))))"

text \<open>Lines 370-386: one pass of the loop over the cells.\<close>

definition project_cell ::
  "grid \<Rightarrow> vec \<Rightarrow> vec \<Rightarrow> geometry \<Rightarrow> nat list \<Rightarrow> nat list \<Rightarrow> nat \<Rightarrow> mat \<Rightarrow> error + mat" where
  "project_cell g u a mg faces nodes c P0u =
     bind_err (project_den g mg faces nodes c) (\<lambda>(faces_loc, delta_c, den).
     bind_err (div_cols delta_c den) (\<lambda>Pi.
     bind_err (take_idx u faces_loc) (\<lambda>u_loc.
     bind_err (dot_vec Pi u_loc) (\<lambda>v.
     if c \<ge> length a then Inl IndexError
     else
       bind_err (set_masked_col P0u (dim_mask mg) c (map (\<lambda>x. x * a ! c) v)) (\<lambda>P1.
       bind_err (dot_vec (np_T (rot_R mg)) (map (\<lambda>row. row ! c) P1)) (\<lambda>w.
       set_col P1 c w))))))"

fun project_cells :: "(nat \<Rightarrow> mat \<Rightarrow> error + mat) \<Rightarrow> nat list \<Rightarrow> mat \<Rightarrow> error + mat" where
  "project_cells f [] P = Inr P"
| "project_cells f (c # cs) P = bind_err (f c P) (\<lambda>P1. project_cells f cs P1)"

text \<open>Lines 359-361 and 365: \<open>faces\<close>, sorted by cell, and \<open>nodes\<close>.\<close>

definition sorted_faces :: "grid \<Rightarrow> nat list" where
  "sorted_faces g = map fst (sort_key (\<lambda>t. fst (snd t)) (sps_find (cell_faces g)))"

definition project_u :: "grid \<Rightarrow> vec \<Rightarrow> data_dict \<Rightarrow> geometry \<Rightarrow> error + mat" where
  "project_u g u data mg =
     (if dim g = 0 then Inr [[0], [0], [0]]
      else
        (case param data of
           None \<Rightarrow> Inl KeyError
         | Some p \<Rightarrow>
             let a = get_aperture p;
                 faces = sorted_faces g;
                 nodes = concat (face_nodes g);
                 P0u = replicate 3 (replicate (num_cells g) 0)
             in project_cells (project_cell g u a mg faces nodes) [0..<num_cells g] P0u))"

subsection \<open>Example inputs\<close>

text \<open>A one-dimensional grid of two unit cells on the \<open>x\<close> axis, with nodes and faces at
  0, 1 and 2, unit permeability and unit aperture. The mapper turns the \<open>x\<close> axis onto the
  third axis, which is the active one.\<close>

definition line_grid :: grid where
  "line_grid = \<lparr> dim = 1, num_cells = 2, num_faces = 3,
      cell_faces = [[(0, -1), (1, 1)], [(1, -1), (2, 1)]],
      face_nodes = [[0], [1], [2]],
      cell_volumes = [1, 1],
      face_areas = [1, 1, 1] \<rparr>"

definition line_geometry :: geometry where
  "line_geometry = \<lparr> c_centers = [[1/2, 3/2]], f_normals = [[1, 1, 1]],
      f_centers = [[0, 1, 2]],
      rot_R = [[0, 0, -1], [0, 1, 0], [1, 0, 0]], dim_mask = [False, False, True],
      node_coords = [[0, 1, 2]] \<rparr>"

text \<open>The same grid on the \<open>y\<close> axis: the mapper turns the \<open>y\<close> axis onto the third
  axis.\<close>

definition line_geometry_y :: geometry where
  "line_geometry_y = line_geometry \<lparr> rot_R := [[1, 0, 0], [0, 0, -1], [0, 1, 0]] \<rparr>"

text \<open>Dirichlet at face 0, Neumann at face 2; face 1 lies between the two cells.\<close>

definition line_bc :: bound_cond where
  "line_bc = \<lparr> is_dir = [True, False, False], is_neu = [False, False, True],
      is_rob = [False, False, False], is_internal = [False, False, False],
      robin_weight = [1, 1, 1] \<rparr>"

definition line_param :: "bound_cond option \<Rightarrow> vec option \<Rightarrow> vec \<Rightarrow> parameters" where
  "line_param bc bc_val src = \<lparr> get_tensor = 0, get_bc = bc, get_bc_val = bc_val,
      get_aperture = [1, 1], get_source = src \<rparr>"

definition line_data :: "bound_cond option \<Rightarrow> vec option \<Rightarrow> vec \<Rightarrow> data_dict" where
  "line_data bc bc_val src =
     \<lparr> param = Some (line_param bc bc_val src), is_tangential = None \<rparr>"

definition line_store :: store where
  "line_store = [\<lparr> perm = [[[1, 0, 0], [0, 1, 0], [0, 0, 1]], [[1, 0, 0], [0, 1, 0], [0, 0, 1]]] \<rparr>]"

text \<open>Face 1 flagged internal and Neumann; Dirichlet at both ends.\<close>

definition line_bc_internal :: bound_cond where
  "line_bc_internal = \<lparr> is_dir = [True, False, False], is_neu = [False, True, True],
      is_rob = [False, False, False], is_internal = [False, True, False],
      robin_weight = [1, 1, 1] \<rparr>"

definition line_bc_dir :: bound_cond where
  "line_bc_dir = \<lparr> is_dir = [True, False, True], is_neu = [False, False, False],
      is_rob = [False, False, False], is_internal = [False, False, False],
      robin_weight = [1, 1, 1] \<rparr>"

text \<open>The matrices of the two-cell grid, faces before cells: without a Neumann face, and
  with the row of face 2 cleared; the store once \<open>matrix\<close> has made its reduced copy.\<close>

definition line_matrix :: mat where
  "line_matrix = [[1 / 3, 1 / 6, 0, 1, 0], [1 / 6, 2 / 3, 1 / 6, - 1, 1],
        [0, 1 / 6, 1 / 3, 0, - 1], [1, - 1, 0, 0, 0], [0, 1, - 1, 0, 0]]"

definition line_matrix_neumann :: mat where
  "line_matrix_neumann = [[1 / 3, 1 / 6, 0, 1, 0], [1 / 6, 2 / 3, 1 / 6, - 1, 1],
        [0, 0, 1, 0, 0], [1, - 1, 0, 0, 0], [0, 1, - 1, 0, 0]]"

definition line_store_after :: store where
  "line_store_after = line_store @ [\<lparr>perm = [[[1]], [[1]]]\<rparr>]"

text \<open>A grid of dimension 0: one cell, one face.\<close>

definition point_grid :: grid where
  "point_grid = \<lparr> dim = 0, num_cells = 1, num_faces = 1,
      cell_faces = [[(0, 1)]], face_nodes = [[0]], cell_volumes = [1], face_areas = [1] \<rparr>"


section \<open>Properties\<close>

subsection \<open>Errors and index arrays\<close>

lemma bind_err_Inr [simp]: "bind_err (Inr x) f = f x"
  by (simp add: bind_err_def)

lemma bind_err_Inl [simp]: "bind_err (Inl e) f = Inl e"
  by (simp add: bind_err_def)

lemma bind_err_eq_Inr: "bind_err r f = Inr y \<longleftrightarrow> (\<exists>x. r = Inr x \<and> f x = Inr y)"
  by (cases r) simp_all

lemma bind_err_eq_Inl:
  "bind_err r f = Inl e \<longleftrightarrow> r = Inl e \<or> (\<exists>x. r = Inr x \<and> f x = Inl e)"
  by (cases r) simp_all

lemma take_idx_Inr:
  "take_idx xs idx = Inr ys \<longleftrightarrow> (\<forall>i \<in> set idx. i < length xs) \<and> ys = map (\<lambda>i. xs ! i) idx"
  by (auto simp: take_idx_def)

lemma take_idx_Inl: "take_idx xs idx = Inl e \<Longrightarrow> e = IndexError"
  by (auto simp: take_idx_def split: if_splits)

lemma logical_and_Inl: "logical_and xs ys = Inl e \<Longrightarrow> e = ValueError"
  by (auto simp: logical_and_def split: if_splits)

lemma logical_and_not_nth:
  assumes "length xs = n" and "length ys = n" and "logical_and xs (logical_not ys) = Inr zs"
  shows "length zs = n" and "j < n \<Longrightarrow> zs ! j = (xs ! j \<and> \<not> ys ! j)"
  using assms by (auto simp: logical_and_def logical_not_def)

lemma set_np_where: "set (np_where xs) = {i. i < length xs \<and> xs ! i}"
  by (auto simp: np_where_def)

lemma np_any_iff: "np_any xs \<longleftrightarrow> (\<exists>i < length xs. xs ! i)"
  by (auto simp: np_any_def in_set_conv_nth)

lemma fold_update_nth:
  "\<forall>i \<in> set idx. i < length xs \<Longrightarrow> j < length xs \<Longrightarrow>
   fold (\<lambda>(i, v) acc. acc[i := v]) (zip idx (map h idx)) xs ! j
     = (if j \<in> set idx then h j else xs ! j)"
proof (induction idx arbitrary: xs)
  case Nil
  then show ?case by simp
next
  case (Cons i idx)
  have "\<forall>k \<in> set idx. k < length (xs[i := h i])" using Cons.prems by simp
  moreover have "j < length (xs[i := h i])" using Cons.prems by simp
  ultimately show ?case using Cons.IH [of "xs[i := h i]"] Cons.prems
    by (auto simp: nth_list_update)
qed

lemma fold_update_length:
  "length (fold (\<lambda>(i, v) acc. acc[i := v]) ps xs) = length xs"
  by (induction ps arbitrary: xs) auto

lemma set_at_Inl: "set_at xs idx vals = Inl e \<Longrightarrow> e = IndexError"
  by (auto simp: set_at_def split: if_splits)

lemma set_at_map:
  assumes "set_at xs idx (map h idx) = Inr ys"
  shows "length ys = length xs"
    and "j < length xs \<Longrightarrow> ys ! j = (if j \<in> set idx then h j else xs ! j)"
  using assms fold_update_nth [of idx xs j h]
  by (auto simp: set_at_def fold_update_length split: if_splits)

lemma iadd_at_Inl: "iadd_at xs idx vals = Inl e \<Longrightarrow> e = IndexError"
  by (auto simp: iadd_at_def bind_err_eq_Inl dest: take_idx_Inl set_at_Inl)

lemma map2_map_map: "map2 f (map g xs) (map h xs) = map (\<lambda>x. f (g x) (h x)) xs"
  by (induction xs) auto

lemma iadd_at_map:
  assumes "iadd_at xs idx (map h idx) = Inr ys"
  shows "length ys = length xs"
    and "j < length xs \<Longrightarrow> ys ! j = (if j \<in> set idx then xs ! j + h j else xs ! j)"
proof -
  from assms have s: "set_at xs idx (map (\<lambda>i. xs ! i + h i) idx) = Inr ys"
    by (auto simp: iadd_at_def bind_err_eq_Inr take_idx_Inr map2_map_map)
  show "length ys = length xs" using set_at_map(1) [OF s] .
  show "j < length xs \<Longrightarrow> ys ! j = (if j \<in> set idx then xs ! j + h j else xs ! j)"
    using set_at_map(2) [OF s] by simp
qed

subsection \<open>ndof\<close>

text \<open>
  Claim C7. \<open>ndof\<close> returns \<open>num_cells + num_faces\<close> for a grid, \<open>num_cells\<close> for a mortar
  grid, and raises ValueError (the spec's InvalidEntityKind) for an object of any other
  class.
\<close>

theorem ndof_by_kind:
  "ndof (Grid g) = Inr (num_cells g + num_faces g)
   \<and> ndof (MortarGrid n) = Inr n
   \<and> ndof (OtherObject cls) = Inl ValueError"
  by (simp add: ndof_def)

subsection \<open>rhs\<close>

lemma rhs_dir_step:
  assumes "(if np_any dir then
          (let idx = np_where dir in
           bind_err (take_idx sign idx) (\<lambda>s.
           bind_err (take_idx bc_val idx) (\<lambda>v.
           iadd_at rhs0 idx (map2 (\<lambda>a b. - a * b) s v))))
        else Inr rhs0) = Inr r"
  shows "length r = length rhs0"
    and "j < length rhs0 \<Longrightarrow> r ! j = rhs0 ! j + (if j < length dir \<and> dir ! j then - (sign ! j) * (bc_val ! j) else 0)"
proof -
  show "length r = length rhs0"
  proof (cases "np_any dir")
    case True
    with assms have "iadd_at rhs0 (np_where dir) (map (\<lambda>i. - (sign ! i) * (bc_val ! i)) (np_where dir)) = Inr r"
      by (auto simp: Let_def bind_err_eq_Inr take_idx_Inr map2_map_map)
    then show ?thesis by (rule iadd_at_map(1))
  next
    case False
    with assms show ?thesis by simp
  qed
  show "r ! j = rhs0 ! j + (if j < length dir \<and> dir ! j then - (sign ! j) * (bc_val ! j) else 0)"
    if j: "j < length rhs0"
  proof (cases "np_any dir")
    case True
    with assms have "iadd_at rhs0 (np_where dir) (map (\<lambda>i. - (sign ! i) * (bc_val ! i)) (np_where dir)) = Inr r"
      by (auto simp: Let_def bind_err_eq_Inr take_idx_Inr map2_map_map)
    from iadd_at_map(2) [OF this j] show ?thesis
      by (simp add: set_np_where)
  next
    case False
    with assms have "r = rhs0" by simp
    with False show ?thesis by (auto simp: np_any_iff)
  qed
qed

lemma rhs_rob_step:
  assumes "(if np_any rob then
          (let idx = np_where rob in
           bind_err (take_idx sign idx) (\<lambda>s.
           bind_err (take_idx bc_val idx) (\<lambda>v.
           bind_err (take_idx rw idx) (\<lambda>rw.
           iadd_at rhs1 idx (map2 (\<lambda>ab r. ab / r) (map2 (\<lambda>a b. - a * b) s v) rw)))))
        else Inr rhs1) = Inr r"
  shows "length r = length rhs1"
    and "j < length rhs1 \<Longrightarrow>
         r ! j = rhs1 ! j + (if j < length rob \<and> rob ! j then - (sign ! j) * (bc_val ! j) / (rw ! j) else 0)"
proof -
  have eq: "iadd_at rhs1 (np_where rob)
              (map (\<lambda>i. - (sign ! i) * (bc_val ! i) / (rw ! i)) (np_where rob)) = Inr r"
    if "np_any rob"
    using assms that
    by (auto simp: Let_def bind_err_eq_Inr take_idx_Inr map2_map_map)
  show "length r = length rhs1"
  proof (cases "np_any rob")
    case True
    from iadd_at_map(1) [OF eq [OF True]] show ?thesis .
  next
    case False
    with assms show ?thesis by simp
  qed
  show "r ! j = rhs1 ! j + (if j < length rob \<and> rob ! j then - (sign ! j) * (bc_val ! j) / (rw ! j) else 0)"
    if j: "j < length rhs1"
  proof (cases "np_any rob")
    case True
    from iadd_at_map(2) [OF eq [OF True] j] show ?thesis
      by (simp add: set_np_where)
  next
    case False
    with assms have "r = rhs1" by simp
    with False show ?thesis by (auto simp: np_any_iff)
  qed
qed

lemma rhs_neu_step:
  assumes "(if np_any neu then
       (let idx = np_where neu in
        bind_err (take_idx sign idx) (\<lambda>s.
        bind_err (take_idx bc_val idx) (\<lambda>v.
        set_at rhs2 idx (map2 (\<lambda>sw b. sw * b) (map (\<lambda>a. a * bc_weight) s) v))))
     else Inr rhs2) = Inr r"
  shows "length r = length rhs2"
    and "j < length rhs2 \<Longrightarrow>
         r ! j = (if j < length neu \<and> neu ! j then sign ! j * bc_weight * (bc_val ! j) else rhs2 ! j)"
proof -
  have eq: "set_at rhs2 (np_where neu)
              (map (\<lambda>i. sign ! i * bc_weight * (bc_val ! i)) (np_where neu)) = Inr r"
    if "np_any neu"
    using assms that
    by (auto simp: Let_def bind_err_eq_Inr take_idx_Inr map2_map_map comp_def)
  show "length r = length rhs2"
  proof (cases "np_any neu")
    case True
    from set_at_map(1) [OF eq [OF True]] show ?thesis .
  next
    case False
    with assms show ?thesis by simp
  qed
  show "r ! j = (if j < length neu \<and> neu ! j then sign ! j * bc_weight * (bc_val ! j) else rhs2 ! j)"
    if j: "j < length rhs2"
  proof (cases "np_any neu")
    case True
    from set_at_map(2) [OF eq [OF True] j] show ?thesis
      by (simp add: set_np_where)
  next
    case False
    with assms have "r = rhs2" by simp
    with False show ?thesis by (auto simp: np_any_iff)
  qed
qed

lemma rhs_bc_entries:
  assumes len: "length (is_dir bc) = F" "length (is_neu bc) = F" "length (is_rob bc) = F"
               "length (is_internal bc) = F"
    and ok: "rhs_bc g bc bc_val bc_weight rhs0 = Inr r"
  shows "length r = length rhs0"
    and "j < length rhs0 \<Longrightarrow>
         r ! j =
          (if j < F \<and> is_neu bc ! j \<and> \<not> is_internal bc ! j
           then face_sign g ! j * bc_weight * (bc_val ! j)
           else rhs0 ! j
                + (if j < F \<and> is_dir bc ! j \<and> \<not> is_internal bc ! j
                   then - (face_sign g ! j) * (bc_val ! j) else 0)
                + (if j < F \<and> is_rob bc ! j \<and> \<not> is_internal bc ! j
                   then - (face_sign g ! j) * (bc_val ! j) / (robin_weight bc ! j) else 0))"
proof -
  from ok obtain neu dir rob rhs1 rhs2 where
    neu: "logical_and (is_neu bc) (logical_not (is_internal bc)) = Inr neu" and
    dir: "logical_and (is_dir bc) (logical_not (is_internal bc)) = Inr dir" and
    rob: "logical_and (is_rob bc) (logical_not (is_internal bc)) = Inr rob" and
    s1: "(if np_any dir then
          (let idx = np_where dir in
           bind_err (take_idx (face_sign g) idx) (\<lambda>s.
           bind_err (take_idx bc_val idx) (\<lambda>v.
           iadd_at rhs0 idx (map2 (\<lambda>a b. - a * b) s v))))
        else Inr rhs0) = Inr rhs1" and
    s2: "(if np_any rob then
          (let idx = np_where rob in
           bind_err (take_idx (face_sign g) idx) (\<lambda>s.
           bind_err (take_idx bc_val idx) (\<lambda>v.
           bind_err (take_idx (robin_weight bc) idx) (\<lambda>rw.
           iadd_at rhs1 idx (map2 (\<lambda>ab r. ab / r) (map2 (\<lambda>a b. - a * b) s v) rw)))))
        else Inr rhs1) = Inr rhs2" and
    s3: "(if np_any neu then
       (let idx = np_where neu in
        bind_err (take_idx (face_sign g) idx) (\<lambda>s.
        bind_err (take_idx bc_val idx) (\<lambda>v.
        set_at rhs2 idx (map2 (\<lambda>sw b. sw * b) (map (\<lambda>a. a * bc_weight) s) v))))
     else Inr rhs2) = Inr r"
    unfolding rhs_bc_def Let_def bind_err_eq_Inr by blast
  note N = logical_and_not_nth [OF len(2) len(4) neu]
  note D = logical_and_not_nth [OF len(1) len(4) dir]
  note R = logical_and_not_nth [OF len(3) len(4) rob]
  note l1 = rhs_dir_step(1) [OF s1] and l2 = rhs_rob_step(1) [OF s2] and l3 = rhs_neu_step(1) [OF s3]
  show "length r = length rhs0" using l1 l2 l3 by simp
  show "r ! j =
          (if j < F \<and> is_neu bc ! j \<and> \<not> is_internal bc ! j
           then face_sign g ! j * bc_weight * (bc_val ! j)
           else rhs0 ! j
                + (if j < F \<and> is_dir bc ! j \<and> \<not> is_internal bc ! j
                   then - (face_sign g ! j) * (bc_val ! j) else 0)
                + (if j < F \<and> is_rob bc ! j \<and> \<not> is_internal bc ! j
                   then - (face_sign g ! j) * (bc_val ! j) / (robin_weight bc ! j) else 0))"
    if j: "j < length rhs0"
  proof -
    have j1: "j < length rhs1" and j2: "j < length rhs2" using j l1 l2 by simp_all
    have e1: "rhs1 ! j = rhs0 ! j + (if j < F \<and> is_dir bc ! j \<and> \<not> is_internal bc ! j
                   then - (face_sign g ! j) * (bc_val ! j) else 0)"
      using rhs_dir_step(2) [OF s1 j] D by auto
    have e2: "rhs2 ! j = rhs1 ! j + (if j < F \<and> is_rob bc ! j \<and> \<not> is_internal bc ! j
                   then - (face_sign g ! j) * (bc_val ! j) / (robin_weight bc ! j) else 0)"
      using rhs_rob_step(2) [OF s2 j1] R by auto
    have e3: "r ! j = (if j < F \<and> is_neu bc ! j \<and> \<not> is_internal bc ! j
           then face_sign g ! j * bc_weight * (bc_val ! j) else rhs2 ! j)"
      using rhs_neu_step(2) [OF s3 j2] N by auto
    show ?thesis unfolding e3 e2 e1 by simp
  qed
qed

lemma rhs_bc_not_assertion: "rhs_bc g bc bc_val bc_weight rhs0 \<noteq> Inl AssertionError"
proof
  assume a: "rhs_bc g bc bc_val bc_weight rhs0 = Inl AssertionError"
  have t: "take_idx xs idx \<noteq> Inl AssertionError" for xs :: "real list" and idx
    using take_idx_Inl [of xs idx AssertionError] by auto
  have l: "logical_and xs ys \<noteq> Inl AssertionError" for xs ys
    using logical_and_Inl [of xs ys AssertionError] by auto
  have i: "iadd_at xs idx vals \<noteq> Inl AssertionError" for xs idx vals
    using iadd_at_Inl [of xs idx vals AssertionError] by auto
  have s: "set_at xs idx vals \<noteq> Inl AssertionError" for xs :: "real list" and idx vals
    using set_at_Inl [of xs idx vals AssertionError] by auto
  from a show False
    unfolding rhs_bc_def Let_def
    by (auto simp: bind_err_eq_Inl t l i s split: if_splits)
qed

lemma rhs_source_irrelevant:
  assumes "dim g \<noteq> 0"
  shows "rhs g (data\<lparr>param := Some (p\<lparr>get_source := f\<rparr>)\<rparr>) w = rhs g (data\<lparr>param := Some p\<rparr>) w"
  using assms by (simp add: rhs_def)

text \<open>
  Claim C8. On a grid of positive dimension, \<open>rhs\<close> fails its assertion (the spec's
  InconsistentBoundaryData) exactly when one of the boundary descriptor and the boundary
  values is there and the other is not; when both are absent it returns the zero vector
  of length \<open>ndof(g)\<close>.
\<close>

theorem rhs_inconsistent_boundary_data:
  assumes "dim g \<noteq> 0" and "param data = Some p"
  shows "(rhs g data w = Inl AssertionError \<longleftrightarrow> (get_bc p = None) \<noteq> (get_bc_val p = None))
       \<and> (get_bc p = None \<and> get_bc_val p = None \<longrightarrow>
            (\<exists>n. ndof (Grid g) = Inr n \<and> rhs g data w = Inr (replicate n 0)))"
  using assms rhs_bc_not_assertion [of g _ _ w]
  by (auto simp: rhs_def ndof_def Let_def split: option.splits)

theorem rhs_inconsistent_boundary_data_witness:
  "dim line_grid \<noteq> 0
   \<and> param (line_data None (Some [2, 0, 3]) [0, 0]) = Some (line_param None (Some [2, 0, 3]) [0, 0])
   \<and> rhs line_grid (line_data None (Some [2, 0, 3]) [0, 0]) 1 = Inl AssertionError
   \<and> rhs line_grid (line_data None None [0, 0]) 1 = Inr [0, 0, 0, 0, 0]"
proof -
  have d: "dim line_grid \<noteq> 0" by (simp add: line_grid_def)
  have p: "param (line_data None (Some [2, 0, 3]) [0, 0])
             = Some (line_param None (Some [2, 0, 3]) [0, 0])"
    by (simp add: line_data_def)
  have q: "param (line_data None None [0, 0]) = Some (line_param None None [0, 0])"
    by (simp add: line_data_def)
  have n: "ndof (Grid line_grid) = Inr 5" by (simp add: ndof_def line_grid_def)
  from rhs_inconsistent_boundary_data [OF d p, of 1]
       rhs_inconsistent_boundary_data [OF d q, of 1] n d p
  show ?thesis by (simp add: line_param_def numeral_eq_Suc)
qed



text \<open>
  Claim C4. The docstring of \<open>matrix_rhs\<close> promises a right-hand side that contains the
  scalar source term, and \<open>rhs\<close> fetches the source, but on a grid of positive dimension
  it never uses it: on the two-cell grid the sources \<open>[5, 7]\<close> and \<open>[0, 0]\<close> give the same
  vector, whose cell block is zero.
\<close>

theorem rhs_source_unused_example:
  "rhs line_grid (line_data (Some line_bc) (Some [2, 0, 3]) [5, 7]) 4 = Inr [2, 0, 12, 0, 0]
   \<and> rhs line_grid (line_data (Some line_bc) (Some [2, 0, 3]) [0, 0]) 4 = Inr [2, 0, 12, 0, 0]"
  by code_simp

subsection \<open>matrix: the grid of dimension 0, and the store\<close>

text \<open>
  Claim C9. On a grid of dimension 0, \<open>matrix\<close> with \<open>bc_weight=True\<close> returns the diagonal
  matrix of \<open>[1, 0]\<close> of shape \<open>ndof(g)\<close> by \<open>ndof(g)\<close> and the weight 1, whatever the data
  dictionary holds: the result is the same for every \<open>data\<close>, also one without \<open>"param"\<close>.
\<close>

theorem matrix_zero_dim:
  assumes "dim g = 0"
  shows "matrix g data True mg s
         = (Inr (dia_matrix [1, 0] (num_cells g + num_faces g) (num_cells g + num_faces g),
                 Some 1), s)"
  using assms by (simp add: matrix_def ndof_def)

theorem matrix_zero_dim_witness:
  "dim point_grid = 0
   \<and> matrix point_grid \<lparr>param = None, is_tangential = None\<rparr> True line_geometry []
       = (Inr ([[1, 0], [0, 0]], Some 1), [])"
proof -
  have d: "dim point_grid = 0" by (simp add: point_grid_def)
  have m: "dia_matrix [1, 0] (num_cells point_grid + num_faces point_grid)
             (num_cells point_grid + num_faces point_grid) = [[1, 0], [0, 0]]"
    by code_simp
  from matrix_zero_dim [OF d, of "\<lparr>param = None, is_tangential = None\<rparr>" line_geometry "[]"] d m
  show ?thesis by simp
qed

lemma local_tensor_extends: "\<exists>new. snd (local_tensor s k g data mg) = s @ new"
  by (auto simp: local_tensor_def tensor_copy_def tensor_rotate_def Let_def list_update_append)

lemma matrix_store:
  "snd (matrix g data bc_weight mg s) = s \<or>
   (\<exists>p::parameters. param data = Some p \<and>
      snd (matrix g data bc_weight mg s) = snd (local_tensor s (get_tensor p) g data mg))"
  by (auto simp: matrix_def Let_def split: option.splits prod.splits)

text \<open>
  Claim C10. \<open>matrix\<close> leaves every tensor object that existed before the call as it was,
  the permeability tensor of the data among them: the store after the call is the store
  before it, followed at most by the rotated and reduced copy that the call made. (The
  grid, the dictionary and the boundary descriptor are values that \<open>matrix\<close> only reads.)
\<close>

theorem matrix_keeps_tensors:
  "take (length s) (snd (matrix g data bc_weight mg s)) = s"
proof -
  from matrix_store [of g data bc_weight mg s] show ?thesis
  proof
    assume "snd (matrix g data bc_weight mg s) = s"
    then show ?thesis by simp
  next
    assume "\<exists>p::parameters. param data = Some p \<and>
      snd (matrix g data bc_weight mg s) = snd (local_tensor s (get_tensor p) g data mg)"
    then obtain p :: parameters where
      e: "snd (matrix g data bc_weight mg s) = snd (local_tensor s (get_tensor p) g data mg)"
      by blast
    from local_tensor_extends [of s "get_tensor p" g data mg] obtain new where
      "snd (local_tensor s (get_tensor p) g data mg) = s @ new" by blast
    with e show ?thesis by simp
  qed
qed

subsection \<open>Matrices as lists of rows\<close>

lemma length_mk_mat [simp]: "length (mk_mat r c f) = r"
  by (simp add: mk_mat_def)

lemma nth_mk_mat_row: "i < r \<Longrightarrow> mk_mat r c f ! i = map (f i) [0..<c]"
  by (simp add: mk_mat_def)

lemma nth_mk_mat [simp]: "i < r \<Longrightarrow> j < c \<Longrightarrow> mk_mat r c f ! i ! j = f i j"
  by (simp add: mk_mat_def)

lemma length_mk_mat_row [simp]: "i < r \<Longrightarrow> length (mk_mat r c f ! i) = c"
  by (simp add: mk_mat_def)

lemma is_mat_mk_mat [simp]: "is_mat r c (mk_mat r c f)"
  by (auto simp: is_mat_def mk_mat_def)

lemma nrows_mk_mat [simp]: "nrows (mk_mat r c f) = r"
  by (simp add: nrows_def)

lemma ncols_mk_mat: "ncols (mk_mat r c f) = (if r = 0 then 0 else c)"
  by (cases r) (simp_all add: ncols_def mk_mat_def upt_conv_Cons del: upt_Suc)

lemma is_mat_nrows: "is_mat r c A \<Longrightarrow> nrows A = r"
  by (simp add: is_mat_def nrows_def)

lemma is_mat_ncols: "is_mat r c A \<Longrightarrow> 0 < r \<Longrightarrow> ncols A = c"
  by (cases A) (auto simp: is_mat_def ncols_def)

lemma is_mat_row: "is_mat r c A \<Longrightarrow> i < r \<Longrightarrow> length (A ! i) = c"
  by (auto simp: is_mat_def)

lemma mat_eqI:
  assumes "is_mat r c A" and "is_mat r c B"
    and "\<And>i j. i < r \<Longrightarrow> j < c \<Longrightarrow> A ! i ! j = B ! i ! j"
  shows "A = B"
proof (rule nth_equalityI)
  show "length A = length B" using assms(1,2) by (simp add: is_mat_def)
next
  fix i assume i: "i < length A"
  then have ir: "i < r" using assms(1) by (simp add: is_mat_def)
  show "A ! i = B ! i"
  proof (rule nth_equalityI)
    show "length (A ! i) = length (B ! i)"
      using is_mat_row [OF assms(1) ir] is_mat_row [OF assms(2) ir] by simp
  next
    fix j assume "j < length (A ! i)"
    then have "j < c" using is_mat_row [OF assms(1) ir] by simp
    then show "A ! i ! j = B ! i ! j" using assms(3) ir by simp
  qed
qed

lemma mk_mat_cong:
  "(\<And>i j. i < r \<Longrightarrow> j < c \<Longrightarrow> f i j = g i j) \<Longrightarrow> mk_mat r c f = mk_mat r c g"
  by (rule mat_eqI [of r c]) simp_all

lemma mat_add_nth:
  assumes "is_mat r c A" and "is_mat r c B" and "i < r" and "j < c"
  shows "mat_add A B ! i ! j = A ! i ! j + B ! i ! j"
  using assms by (simp add: mat_add_def is_mat_def)

lemma is_mat_mat_add:
  assumes "is_mat r c A" and "is_mat r c B"
  shows "is_mat r c (mat_add A B)"
  using assms by (auto simp: mat_add_def is_mat_def set_zip)

subsection \<open>The boundary conditions of matrix\<close>

lemma neumann_rows_entries:
  assumes M: "is_mat n n M" and ok: "neumann_rows M rows nrm = Inr M1"
  shows "is_mat n n M1"
    and "i < n \<Longrightarrow> j < n \<Longrightarrow>
         M1 ! i ! j = (if i \<in> set rows then (if i = j then nrm else 0) else M ! i ! j)"
proof -
  let ?M0 = "map (\<lambda>i. if i \<in> set rows then map (\<lambda>x. 0) (M ! i) else M ! i) [0..<nrows M]"
  let ?d0 = "map (\<lambda>i. ?M0 ! i ! i) [0..<min (nrows ?M0) (ncols ?M0)]"
  have nr: "nrows M = n" using M by (rule is_mat_nrows)
  have M0: "is_mat n n ?M0" using M by (auto simp: is_mat_def nr)
  from ok obtain d where
    d: "set_at ?d0 rows (replicate (length rows) nrm) = Inr d" and
    M1: "M1 = mk_mat (nrows ?M0) (ncols ?M0) (\<lambda>i j. if i = j then d ! i else ?M0 ! i ! j)"
    by (auto simp: neumann_rows_def Let_def bind_err_eq_Inr split: if_splits)
  have nr0: "nrows ?M0 = n" using M0 by (rule is_mat_nrows)
  show m1: "is_mat n n M1"
  proof (cases "n = 0")
    case True
    then show ?thesis using M1 nr0 by (simp add: is_mat_def mk_mat_def)
  next
    case False
    then have "ncols ?M0 = n" using is_mat_ncols [OF M0] by simp
    then show ?thesis using M1 nr0 by simp
  qed
  show "M1 ! i ! j = (if i \<in> set rows then (if i = j then nrm else 0) else M ! i ! j)"
    if i: "i < n" and j: "j < n"
  proof -
    have nc0: "ncols ?M0 = n" using is_mat_ncols [OF M0] i by simp
    have r: "replicate (length rows) nrm = map (\<lambda>_. nrm) rows" by (simp add: map_replicate_const)
    have li: "i < length ?d0" using i nr0 nc0 by simp
    have di: "d ! i = (if i \<in> set rows then nrm else ?d0 ! i)"
      using set_at_map(2) [OF d [unfolded r] li] .
    have d0i: "?d0 ! i = ?M0 ! i ! i" using i nr0 nc0 by simp
    have m0: "?M0 ! i ! j = (if i \<in> set rows then 0 else M ! i ! j)"
      using i j nr is_mat_row [OF M i] by simp
    have m0i: "?M0 ! i ! i = (if i \<in> set rows then 0 else M ! i ! i)"
      using i nr is_mat_row [OF M i] by simp
    have "M1 ! i ! j = (if i = j then d ! i else ?M0 ! i ! j)"
      unfolding M1 nr0 nc0 using i j by simp
    then show ?thesis using di d0i m0 m0i by auto
  qed
qed

lemma robin_diag_entries:
  assumes M: "is_mat n n M" and ok: "robin_diag g bc M idx = Inr M2"
  shows "is_mat n n M2"
    and "i < n \<Longrightarrow> j < n \<Longrightarrow>
         M2 ! i ! j = M ! i ! j
            + (if i = j \<and> i \<in> set idx then 1 / (robin_weight bc ! i * face_areas g ! i) else 0)"
proof -
  let ?N = "num_cells g + num_faces g"
  let ?h = "\<lambda>i. 1 / (robin_weight bc ! i * face_areas g ! i)"
  from ok obtain dat where
    dat: "set_at (replicate ?N 0) idx (map ?h idx) = Inr dat" and
    shape: "nrows M = ?N" and
    M2: "M2 = mat_add M (dia_matrix dat ?N ?N)"
    by (auto simp: robin_diag_def ndof_def bind_err_eq_Inr take_idx_Inr map2_map_map
             split: if_splits)
  have n: "?N = n" using shape is_mat_nrows [OF M] by simp
  have D: "is_mat n n (dia_matrix dat ?N ?N)" unfolding n by (simp add: dia_matrix_def)
  show "is_mat n n M2" unfolding M2 using M D by (rule is_mat_mat_add)
  show "M2 ! i ! j = M ! i ! j + (if i = j \<and> i \<in> set idx then ?h i else 0)"
    if i: "i < n" and j: "j < n"
  proof -
    have ld: "length dat = n" using set_at_map(1) [OF dat] n by simp
    have dj: "dat ! j = (if j \<in> set idx then ?h j else 0)"
      using set_at_map(2) [OF dat, of j] j n by simp
    have "dia_matrix dat ?N ?N ! i ! j = (if i = j then dat ! j else 0)"
      unfolding n using i j ld by (simp add: dia_matrix_def)
    then show ?thesis unfolding M2 using mat_add_nth [OF M D i j] dj by auto
  qed
qed

lemma boundary_conditions_entries:
  assumes M: "is_mat n n M"
    and len: "length (is_neu bc) = F" "length (is_rob bc) = F" "length (is_internal bc) = F"
    and ok: "boundary_conditions g (Some bc) M nrm = Inr M2"
  shows "is_mat n n M2"
    and "i < n \<Longrightarrow> j < n \<Longrightarrow>
         M2 ! i ! j =
           (if i < F \<and> is_neu bc ! i \<and> \<not> is_internal bc ! i
            then (if i = j then nrm else 0) else M ! i ! j)
           + (if i = j \<and> i < F \<and> is_rob bc ! i \<and> \<not> is_internal bc ! i
              then 1 / (robin_weight bc ! i * face_areas g ! i) else 0)"
proof -
  from ok obtain neu M1 rob where
    neu: "logical_and (is_neu bc) (logical_not (is_internal bc)) = Inr neu" and
    s1: "(if np_any neu then neumann_rows M (np_where neu) nrm else Inr M) = Inr M1" and
    rob: "logical_and (is_rob bc) (logical_not (is_internal bc)) = Inr rob" and
    s2: "(if np_any rob then robin_diag g bc M1 (np_where rob) else Inr M1) = Inr M2"
    unfolding boundary_conditions_def by (auto simp: bind_err_eq_Inr)
  note N = logical_and_not_nth [OF len(1) len(3) neu]
  note R = logical_and_not_nth [OF len(2) len(3) rob]
  have M1: "is_mat n n M1"
    using s1 M neumann_rows_entries(1) [OF M] by (auto split: if_splits)
  have e1: "M1 ! i ! j = (if i < F \<and> is_neu bc ! i \<and> \<not> is_internal bc ! i
            then (if i = j then nrm else 0) else M ! i ! j)" if "i < n" "j < n" for i j
  proof (cases "np_any neu")
    case True
    with s1 have "neumann_rows M (np_where neu) nrm = Inr M1" by simp
    from neumann_rows_entries(2) [OF M this that] show ?thesis
      using N by (auto simp: set_np_where)
  next
    case False
    with s1 have "M1 = M" by simp
    with False show ?thesis using N by (auto simp: np_any_iff)
  qed
  show "is_mat n n M2"
    using s2 M1 robin_diag_entries(1) [OF M1] by (auto split: if_splits)
  show "M2 ! i ! j =
           (if i < F \<and> is_neu bc ! i \<and> \<not> is_internal bc ! i
            then (if i = j then nrm else 0) else M ! i ! j)
           + (if i = j \<and> i < F \<and> is_rob bc ! i \<and> \<not> is_internal bc ! i
              then 1 / (robin_weight bc ! i * face_areas g ! i) else 0)"
    if i: "i < n" and j: "j < n"
  proof (cases "np_any rob")
    case True
    with s2 have "robin_diag g bc M1 (np_where rob) = Inr M2" by simp
    from robin_diag_entries(2) [OF M1 this i j] show ?thesis
      using R e1 [OF i j] by (auto simp: set_np_where)
  next
    case False
    with s2 have "M2 = M1" by simp
    with False show ?thesis using R e1 [OF i j] by (auto simp: np_any_iff)
  qed
qed

subsection \<open>The saddle-point matrix\<close>

lemma mat_neg_nth:
  assumes "is_mat r c A" and "i < r" and "j < c"
  shows "mat_neg A ! i ! j = - (A ! i ! j)"
  using assms by (simp add: mat_neg_def is_mat_def)

lemma is_mat_mat_neg: "is_mat r c A \<Longrightarrow> is_mat r c (mat_neg A)"
  by (auto simp: mat_neg_def is_mat_def)

lemma is_mat_np_T:
  assumes "is_mat r c A" and "0 < r"
  shows "is_mat c r (np_T A)"
  using assms by (simp add: np_T_def is_mat_ncols is_mat_nrows)

lemma np_T_nth:
  assumes "is_mat r c A" and "0 < r" and "i < c" and "j < r"
  shows "np_T A ! i ! j = A ! j ! i"
  using assms by (simp add: np_T_def is_mat_ncols is_mat_nrows)

lemma coo_matrix_shape:
  assumes "coo_matrix ts = Inr mass"
  shows "\<exists>r c. 0 < r \<and> 0 < c \<and> is_mat r c mass"
proof -
  from assms obtain r c f where "mass = mk_mat (Suc r) (Suc c) f"
    by (auto simp: coo_matrix_def split: if_splits)
  then have "0 < Suc r \<and> 0 < Suc c \<and> is_mat (Suc r) (Suc c) mass" by simp
  then show ?thesis by blast
qed

lemma bmat_blocks:
  assumes mass: "is_mat r c mass" and r: "0 < r"
    and dv: "is_mat C F dv" and C: "0 < C" and F: "0 < F"
    and ok: "bmat mass (np_T dv) dv = Inr M"
  shows "r = F" and "c = F" and "is_mat (F + C) (F + C) M"
    and "i < F \<Longrightarrow> j < C \<Longrightarrow> M ! i ! (F + j) = dv ! j ! i"
    and "i < F \<Longrightarrow> j < C \<Longrightarrow> M ! (F + j) ! i = dv ! j ! i"
    and "i < F \<Longrightarrow> j < F \<Longrightarrow> M ! i ! j = mass ! i ! j"
proof -
  have T: "is_mat F C (np_T dv)" using is_mat_np_T [OF dv C] .
  have ncT: "ncols (np_T dv) = C" using is_mat_ncols [OF T F] .
  from ok have sh: "nrows mass = nrows (np_T dv)" "ncols mass = ncols dv"
    and M: "M = map2 (@) mass (np_T dv) @ map (\<lambda>row. row @ replicate (ncols (np_T dv)) 0) dv"
    by (auto simp: bmat_def split: if_splits)
  show rF: "r = F" using sh(1) is_mat_nrows [OF mass] is_mat_nrows [OF T] by simp
  show cF: "c = F" using sh(2) is_mat_ncols [OF mass r] is_mat_ncols [OF dv C] by simp
  have lm: "length mass = F" "length (np_T dv) = F" "length dv = C"
    using mass T dv rF by (simp_all add: is_mat_def)
  have rows_m: "length (mass ! i) = F" if "i < F" for i
    using is_mat_row [OF mass] that rF cF by simp
  have rows_T: "length (np_T dv ! i) = C" if "i < F" for i
    using is_mat_row [OF T that] .
  have rows_d: "length (dv ! j) = F" if "j < C" for j
    using is_mat_row [OF dv that] .
  have top: "M ! i = mass ! i @ np_T dv ! i" if "i < F" for i
    unfolding M using that lm by (simp add: nth_append)
  have bot: "M ! (F + j) = dv ! j @ replicate C 0" if "j < C" for j
    unfolding M ncT using that lm by (simp add: nth_append)
  show "is_mat (F + C) (F + C) M"
    unfolding is_mat_def
  proof (intro conjI ballI)
    show "length M = F + C" unfolding M using lm by simp
  next
    fix row assume "row \<in> set M"
    then obtain k where k: "k < length M" "row = M ! k" by (auto simp: in_set_conv_nth)
    have lM: "length M = F + C" unfolding M using lm by simp
    show "length row = F + C"
    proof (cases "k < F")
      case True
      then show ?thesis using k top [OF True] rows_m rows_T by simp
    next
      case False
      then obtain j where j: "k = F + j" "j < C" using k lM by (metis add_diff_inverse_nat nat_add_left_cancel_less)
      then show ?thesis using k bot [of j] rows_d by simp
    qed
  qed
  show "M ! i ! (F + j) = dv ! j ! i" if "i < F" "j < C"
    using top [OF that(1)] rows_m [OF that(1)] np_T_nth [OF dv C that] by (simp add: nth_append)
  show "M ! (F + j) ! i = dv ! j ! i" if "i < F" "j < C"
    using bot [OF that(2)] rows_d [OF that(2)] that by (simp add: nth_append)
  show "M ! i ! j = mass ! i ! j" if "i < F" "j < F"
    using top [OF that(1)] rows_m [OF that(1)] that by (simp add: nth_append)
qed

lemma cell_faces_dense_shape [simp]:
  "is_mat (num_faces g) (length (cell_faces g)) (cell_faces_dense g)"
  by (simp add: cell_faces_dense_def)

lemma div_empty:
  assumes "num_faces g = 0 \<or> length (cell_faces g) = 0"
  shows "mat_neg (np_T (cell_faces_dense g)) = []"
proof -
  have "ncols (cell_faces_dense g) = 0"
    using assms by (auto simp: cell_faces_dense_def ncols_mk_mat)
  then show ?thesis by (simp add: np_T_def mat_neg_def mk_mat_def)
qed

lemma div_shape:
  assumes "0 < num_faces g" and "0 < length (cell_faces g)"
  shows "is_mat (length (cell_faces g)) (num_faces g) (mat_neg (np_T (cell_faces_dense g)))"
    and "i < num_faces g \<Longrightarrow> j < length (cell_faces g) \<Longrightarrow>
         mat_neg (np_T (cell_faces_dense g)) ! j ! i = - (cell_faces_dense g ! i ! j)"
proof -
  let ?F = "num_faces g" and ?C = "length (cell_faces g)"
  have T: "is_mat ?C ?F (np_T (cell_faces_dense g))"
    using is_mat_np_T [OF cell_faces_dense_shape assms(1)] .
  show "is_mat ?C ?F (mat_neg (np_T (cell_faces_dense g)))"
    using T by (rule is_mat_mat_neg)
  show "mat_neg (np_T (cell_faces_dense g)) ! j ! i = - (cell_faces_dense g ! i ! j)"
    if "i < ?F" "j < ?C"
    using mat_neg_nth [OF T that(2,1)]
      np_T_nth [OF cell_faces_dense_shape assms(1) that(2,1)] by simp
qed

lemma saddle_point_blocks:
  assumes ok: "saddle_point g a k_perm mg bc_weight = Inr (M, nrm)"
  shows "0 < num_faces g" and "0 < length (cell_faces g)"
    and "is_mat (num_faces g + length (cell_faces g)) (num_faces g + length (cell_faces g)) M"
    and "i < num_faces g \<Longrightarrow> j < length (cell_faces g) \<Longrightarrow>
         M ! i ! (num_faces g + j) = - (cell_faces_dense g ! i ! j)"
    and "i < num_faces g \<Longrightarrow> j < length (cell_faces g) \<Longrightarrow>
         M ! (num_faces g + j) ! i = - (cell_faces_dense g ! i ! j)"
proof -
  let ?F = "num_faces g" and ?C = "length (cell_faces g)"
  let ?dv = "mat_neg (np_T (cell_faces_dense g))"
  from ok obtain ts mass where
    coo: "coo_matrix ts = Inr mass" and b: "bmat mass (np_T ?dv) ?dv = Inr M"
    unfolding saddle_point_def Let_def by (auto simp: bind_err_eq_Inr)
  from coo_matrix_shape [OF coo] obtain r c where
    r: "0 < r" and c: "0 < c" and mass: "is_mat r c mass" by blast
  have pos: "0 < ?F \<and> 0 < ?C"
  proof (rule ccontr)
    assume "\<not> (0 < ?F \<and> 0 < ?C)"
    then have "?dv = []" using div_empty [of g] by auto
    with b have "nrows mass = 0" by (simp add: bmat_def np_T_def nrows_def mk_mat_def ncols_def split: if_splits)
    with r mass show False by (simp add: is_mat_def nrows_def)
  qed
  then show F: "0 < ?F" and C: "0 < ?C" by simp_all
  note dv = div_shape [OF F C]
  note bl = bmat_blocks [OF mass r dv(1) C F b]
  show "is_mat (?F + ?C) (?F + ?C) M" using bl(3) .
  show "M ! i ! (?F + j) = - (cell_faces_dense g ! i ! j)" if "i < ?F" "j < ?C"
    using bl(4) [OF that] dv(2) [OF that] by simp
  show "M ! (?F + j) ! i = - (cell_faces_dense g ! i ! j)" if "i < ?F" "j < ?C"
    using bl(5) [OF that] dv(2) [OF that] by simp
qed

lemma matrix_stages:
  assumes "dim g \<noteq> 0" and "param data = Some p"
    and "matrix g data bc_weight mg s = (Inr (M2, w), s')"
  shows "\<exists>M nrm. saddle_point g (get_aperture p)
                   (perm (snd (local_tensor s (get_tensor p) g data mg)
                            ! fst (local_tensor s (get_tensor p) g data mg))) mg bc_weight
                 = Inr (M, nrm)
               \<and> boundary_conditions g (get_bc p) M nrm = Inr M2"
  using assms
  by (auto simp: matrix_def Let_def bind_err_eq_Inr split: if_splits prod.splits)

text \<open>
  Claim C2. For a face flagged internal, also when it is flagged Neumann, Robin or
  Dirichlet as well: the Neumann and Robin branches of \<open>matrix\<close> leave its row (the
  diagonal entry with it) as the assembly made it, and \<open>rhs\<close> gives it no Dirichlet,
  Neumann or Robin contribution, so its entry stays zero. The flag arrays have one entry
  for each face.
\<close>

theorem internal_faces_untouched:
  assumes "dim g \<noteq> 0" and "param data = Some p" and "get_bc p = Some bc"
    and "length (is_dir bc) = num_faces g" and "length (is_neu bc) = num_faces g"
    and "length (is_rob bc) = num_faces g" and "length (is_internal bc) = num_faces g"
    and "face < num_faces g" and "is_internal bc ! face"
  shows "(matrix g data bc_weight mg s = (Inr (M2, w), s') \<longrightarrow>
           (\<exists>M nrm. saddle_point g (get_aperture p)
                       (perm (snd (local_tensor s (get_tensor p) g data mg)
                                ! fst (local_tensor s (get_tensor p) g data mg))) mg bc_weight
                     = Inr (M, nrm)
                 \<and> boundary_conditions g (Some bc) M nrm = Inr M2
                 \<and> M2 ! face = M ! face))
       \<and> (rhs g data weight = Inr r \<longrightarrow> r ! face = 0)"
proof (intro conjI impI)
  assume m: "matrix g data bc_weight mg s = (Inr (M2, w), s')"
  from matrix_stages [OF assms(1,2) m] assms(3) obtain M nrm where
    sp: "saddle_point g (get_aperture p)
           (perm (snd (local_tensor s (get_tensor p) g data mg)
                    ! fst (local_tensor s (get_tensor p) g data mg))) mg bc_weight
         = Inr (M, nrm)" and
    bcs: "boundary_conditions g (Some bc) M nrm = Inr M2"
    by auto
  let ?n = "num_faces g + length (cell_faces g)"
  have M: "is_mat ?n ?n M" using saddle_point_blocks(3) [OF sp] .
  have f: "face < ?n" using assms(8) by simp
  note e = boundary_conditions_entries [OF M assms(5,6,7) bcs]
  have "M2 ! face = M ! face"
  proof (rule nth_equalityI)
    show "length (M2 ! face) = length (M ! face)"
      using is_mat_row [OF e(1) f] is_mat_row [OF M f] by simp
  next
    fix j assume "j < length (M2 ! face)"
    then have j: "j < ?n" using is_mat_row [OF e(1) f] by simp
    show "M2 ! face ! j = M ! face ! j"
      using e(2) [OF f j] assms(9) by simp
  qed
  with sp bcs show "\<exists>M nrm. saddle_point g (get_aperture p)
                       (perm (snd (local_tensor s (get_tensor p) g data mg)
                                ! fst (local_tensor s (get_tensor p) g data mg))) mg bc_weight
                     = Inr (M, nrm)
                 \<and> boundary_conditions g (Some bc) M nrm = Inr M2
                 \<and> M2 ! face = M ! face"
    by blast
next
  assume r: "rhs g data weight = Inr r"
  let ?n = "num_cells g + num_faces g"
  from r assms(1,2,3) obtain bc_val where
    ok: "rhs_bc g bc bc_val weight (replicate ?n 0) = Inr r"
    by (auto simp: rhs_def ndof_def Let_def split: option.splits if_splits)
  have j: "face < length (replicate ?n (0::real))" using assms(8) by simp
  from rhs_bc_entries(2) [OF assms(4,5,6,7) ok j] assms(8,9) show "r ! face = 0" by simp
qed

theorem internal_faces_untouched_witness:
  "is_internal line_bc_internal ! 1 \<and> is_neu line_bc_internal ! 1
   \<and> matrix line_grid (line_data (Some line_bc_internal) (Some [2, 5, 3]) [0, 0]) True
        line_geometry line_store
       = (Inr (line_matrix_neumann, Some 1), line_store_after)
   \<and> (\<exists>M nrm. saddle_point line_grid [1, 1] [[[1]], [[1]]] line_geometry True = Inr (M, nrm)
          \<and> boundary_conditions line_grid (Some line_bc_internal) M nrm
               = Inr line_matrix_neumann
          \<and> line_matrix_neumann ! 1 = M ! 1)
   \<and> rhs line_grid (line_data (Some line_bc_internal) (Some [2, 5, 3]) [0, 0]) 4
       = Inr [2, 0, 12, 0, 0]
   \<and> [2, 0, 12, 0, 0 :: real] ! 1 = 0"
proof -
  let ?data = "line_data (Some line_bc_internal) (Some [2, 5, 3]) [0, 0]"
  let ?p = "line_param (Some line_bc_internal) (Some [2, 5, 3]) [0, 0]"
  have d: "dim line_grid \<noteq> 0" by (simp add: line_grid_def)
  have p: "param ?data = Some ?p" by (simp add: line_data_def)
  have b: "get_bc ?p = Some line_bc_internal" by (simp add: line_param_def)
  have l: "length (is_dir line_bc_internal) = num_faces line_grid"
    "length (is_neu line_bc_internal) = num_faces line_grid"
    "length (is_rob line_bc_internal) = num_faces line_grid"
    "length (is_internal line_bc_internal) = num_faces line_grid"
    by (simp_all add: line_bc_internal_def line_grid_def)
  have f: "1 < num_faces line_grid" "is_internal line_bc_internal ! 1"
    by (simp_all add: line_bc_internal_def line_grid_def)
  have n: "is_neu line_bc_internal ! 1" by (simp add: line_bc_internal_def)
  have m: "matrix line_grid ?data True line_geometry line_store
             = (Inr (line_matrix_neumann, Some 1), line_store_after)"
    by code_simp
  have r: "rhs line_grid ?data 4 = Inr [2, 0, 12, 0, 0]" by code_simp
  have a: "get_aperture ?p = [1, 1]" by (simp add: line_param_def)
  have t: "perm (snd (local_tensor line_store (get_tensor ?p) line_grid ?data line_geometry)
                 ! fst (local_tensor line_store (get_tensor ?p) line_grid ?data line_geometry))
           = [[[1]], [[1]]]"
    by code_simp
  from internal_faces_untouched [OF d p b l f, of True line_geometry line_store
      line_matrix_neumann "Some 1" line_store_after 4 "[2, 0, 12, 0, 0]"] m r
  show ?thesis unfolding a t using f(2) n by simp
qed

text \<open>
  Claim C1, as amended. In the matrix that \<open>matrix\<close> returns on a grid of positive
  dimension, with \<open>F = num_faces\<close>: the lower-left block \<open>M[F:, 0:F]\<close> is the negative
  transpose of \<open>g.cell_faces\<close>, and the upper-right block \<open>M[0:F, F:]\<close> equals the
  transpose of the lower-left block, without a change of sign, in the row of every face
  that is not a Neumann face off the internal boundary; the row of such a Neumann face is
  zero there. The flag arrays have one entry for each face.
\<close>

theorem saddle_point_coupling_blocks:
  assumes "dim g \<noteq> 0" and "param data = Some p" and "get_bc p = Some bc"
    and "length (is_neu bc) = num_faces g"
    and "length (is_rob bc) = num_faces g" and "length (is_internal bc) = num_faces g"
    and "length (cell_faces g) = num_cells g"
    and "matrix g data bc_weight mg s = (Inr (M, w), s')"
    and "i < num_faces g" and "j < num_cells g"
  shows "M ! (num_faces g + j) ! i = - (cell_faces_dense g ! i ! j)
       \<and> M ! i ! (num_faces g + j)
           = (if is_neu bc ! i \<and> \<not> is_internal bc ! i then 0 else M ! (num_faces g + j) ! i)"
proof -
  from matrix_stages [OF assms(1,2,8)] assms(3) obtain M0 nrm where
    sp: "saddle_point g (get_aperture p)
           (perm (snd (local_tensor s (get_tensor p) g data mg)
                    ! fst (local_tensor s (get_tensor p) g data mg))) mg bc_weight
         = Inr (M0, nrm)" and
    bcs: "boundary_conditions g (Some bc) M0 nrm = Inr M"
    by auto
  let ?F = "num_faces g"
  let ?n = "?F + length (cell_faces g)"
  have M0: "is_mat ?n ?n M0" using saddle_point_blocks(3) [OF sp] .
  have i: "i < ?F" and j: "j < length (cell_faces g)" using assms(7,9,10) by simp_all
  have i': "i < ?n" and j': "?F + j < ?n" using i j by simp_all
  note e = boundary_conditions_entries(2) [OF M0 assms(4,5,6) bcs]
  have low: "M ! (?F + j) ! i = - (cell_faces_dense g ! i ! j)"
    using e [OF j' i'] saddle_point_blocks(5) [OF sp i j] i by simp
  have up: "M ! i ! (?F + j)
              = (if is_neu bc ! i \<and> \<not> is_internal bc ! i then 0
                 else - (cell_faces_dense g ! i ! j))"
    using e [OF i' j'] saddle_point_blocks(4) [OF sp i j] i by simp
  from low up show ?thesis by simp
qed

theorem saddle_point_coupling_blocks_witness:
  "matrix line_grid (line_data (Some line_bc) (Some [2, 0, 3]) [0, 0]) True
        line_geometry line_store
       = (Inr (line_matrix_neumann, Some 1), line_store_after)
   \<and> is_neu line_bc ! 2 \<and> \<not> is_internal line_bc ! 2
   \<and> line_matrix_neumann ! (3 + 1) ! 2 = - (cell_faces_dense line_grid ! 2 ! 1)
   \<and> line_matrix_neumann ! 2 ! (3 + 1) = 0
   \<and> \<not> is_neu line_bc ! 1
   \<and> line_matrix_neumann ! 1 ! (3 + 1) = line_matrix_neumann ! (3 + 1) ! 1"
proof -
  let ?data = "line_data (Some line_bc) (Some [2, 0, 3]) [0, 0]"
  let ?p = "line_param (Some line_bc) (Some [2, 0, 3]) [0, 0]"
  have d: "dim line_grid \<noteq> 0" by (simp add: line_grid_def)
  have p: "param ?data = Some ?p" by (simp add: line_data_def)
  have b: "get_bc ?p = Some line_bc" by (simp add: line_param_def)
  have l: "length (is_neu line_bc) = num_faces line_grid"
    "length (is_rob line_bc) = num_faces line_grid"
    "length (is_internal line_bc) = num_faces line_grid"
    "length (cell_faces line_grid) = num_cells line_grid"
    by (simp_all add: line_bc_def line_grid_def)
  have m: "matrix line_grid ?data True line_geometry line_store
             = (Inr (line_matrix_neumann, Some 1), line_store_after)"
    by code_simp
  have i2: "2 < num_faces line_grid" and i1: "1 < num_faces line_grid"
    and j: "1 < num_cells line_grid" and F: "num_faces line_grid = 3"
    by (simp_all add: line_grid_def)
  have fl: "is_neu line_bc ! 2" "\<not> is_internal line_bc ! 2" "\<not> is_neu line_bc ! 1"
    by (simp_all add: line_bc_def)
  from saddle_point_coupling_blocks [OF d p b l m i2 j]
       saddle_point_coupling_blocks [OF d p b l m i1 j] m fl
  show ?thesis unfolding F by simp
qed

text \<open>The claim as stated, \<open>M[0:F, F:] = - M[F:, 0:F]\<^sup>T\<close>, fails on the two-cell grid with
  Dirichlet conditions at both ends: there the upper-right block is the transpose itself.\<close>

theorem saddle_point_negative_transpose_counterexample:
  "matrix line_grid (line_data (Some line_bc_dir) (Some [2, 0, 3]) [0, 0]) True
        line_geometry line_store
       = (Inr (line_matrix, Some 1), line_store_after)
   \<and> num_faces line_grid = 3
   \<and> map (drop 3) (take 3 line_matrix) \<noteq> mat_neg (np_T (map (take 3) (drop 3 line_matrix)))
   \<and> map (drop 3) (take 3 line_matrix) = np_T (map (take 3) (drop 3 line_matrix))"
  by code_simp

subsection \<open>project_u\<close>

lemma is_mat_update_entry:
  assumes "is_mat r n P"
  shows "is_mat r n (P[k := (P ! k)[c := x]])"
proof (cases "k < length P")
  case True
  then have "length ((P ! k)[c := x]) = n" using assms by (simp add: is_mat_def)
  moreover have "set (P[k := (P ! k)[c := x]]) \<subseteq> insert ((P ! k)[c := x]) (set P)"
    by (rule set_update_subset_insert)
  ultimately show ?thesis using assms by (auto simp: is_mat_def)
next
  case False
  then have "length P \<le> k" by simp
  then have "P[k := (P ! k)[c := x]] = P" by (rule list_update_beyond)
  then show ?thesis using assms by simp
qed

lemma fold_set_entry_pairs:
  assumes "is_mat r n P"
  shows "is_mat r n (fold (\<lambda>(i, x) acc. acc[i := (acc ! i)[c := x]]) ps P)
       \<and> (\<forall>i < r. \<forall>j < n. j \<noteq> c \<or> i \<notin> fst ` set ps \<longrightarrow>
             fold (\<lambda>(i, x) acc. acc[i := (acc ! i)[c := x]]) ps P ! i ! j = P ! i ! j)"
  using assms
proof (induction ps arbitrary: P)
  case Nil
  then show ?case by simp
next
  case (Cons q ps)
  obtain k x where q: "q = (k, x)" by (cases q)
  let ?P = "P[k := (P ! k)[c := x]]"
  have P': "is_mat r n ?P"
    using Cons.prems by (rule is_mat_update_entry)
  have keep: "?P ! i ! j = P ! i ! j" if "i < r" "j < n" "j \<noteq> c \<or> i \<noteq> k" for i j
    using that Cons.prems by (cases "i = k") (auto simp: is_mat_def)
  from Cons.IH [OF P'] keep show ?case unfolding q by auto
qed

lemma fold_set_entry_const:
  assumes "is_mat r n P"
  shows "is_mat r n (fold (\<lambda>i acc. acc[i := (acc ! i)[c := x]]) rows P)
       \<and> (\<forall>i < r. \<forall>j < n. j \<noteq> c \<or> i \<notin> set rows \<longrightarrow>
             fold (\<lambda>i acc. acc[i := (acc ! i)[c := x]]) rows P ! i ! j = P ! i ! j)"
  using assms
proof (induction rows arbitrary: P)
  case Nil
  then show ?case by simp
next
  case (Cons k rows)
  let ?P = "P[k := (P ! k)[c := x]]"
  have P': "is_mat r n ?P"
    using Cons.prems by (rule is_mat_update_entry)
  have keep: "?P ! i ! j = P ! i ! j" if "i < r" "j < n" "j \<noteq> c \<or> i \<noteq> k" for i j
    using that Cons.prems by (cases "i = k") (auto simp: is_mat_def)
  from Cons.IH [OF P'] keep show ?case by auto
qed

lemma set_masked_col_keeps:
  assumes P: "is_mat r n P" and ok: "set_masked_col P msk c v = Inr P1"
  shows "is_mat r n P1"
    and "i < r \<Longrightarrow> j < n \<Longrightarrow> j \<noteq> c \<or> \<not> msk ! i \<Longrightarrow> P1 ! i ! j = P ! i ! j"
proof -
  let ?rows = "np_where msk"
  from ok have len: "length msk = r" using P by (auto simp: set_masked_col_def is_mat_def nrows_def split: if_splits)
  from ok consider
    (a) "P1 = fold (\<lambda>(i, x) acc. acc[i := (acc ! i)[c := x]]) (zip ?rows v) P"
  | (b) "P1 = fold (\<lambda>i acc. acc[i := (acc ! i)[c := hd v]]) ?rows P"
    by (auto simp: set_masked_col_def Let_def split: if_splits)
  then have "is_mat r n P1 \<and> (\<forall>i < r. \<forall>j < n. j \<noteq> c \<or> i \<notin> set ?rows \<longrightarrow> P1 ! i ! j = P ! i ! j)"
  proof cases
    case a
    have "fst ` set (zip ?rows v) \<subseteq> set ?rows" by (auto dest: set_zip_leftD)
    with fold_set_entry_pairs [OF P, of c "zip ?rows v"] show ?thesis unfolding a by blast
  next
    case b
    with fold_set_entry_const [OF P, of c "hd v" ?rows] show ?thesis by simp
  qed
  then show "is_mat r n P1"
    and "i < r \<Longrightarrow> j < n \<Longrightarrow> j \<noteq> c \<or> \<not> msk ! i \<Longrightarrow> P1 ! i ! j = P ! i ! j"
    using len by (auto simp: set_np_where)
qed

lemma set_col_entries:
  assumes P: "is_mat r n P" and ok: "set_col P c w = Inr P2" and w: "length w = r" and r: "1 < r"
  shows "is_mat r n P2"
    and "i < r \<Longrightarrow> j < n \<Longrightarrow> P2 ! i ! j = (if j = c then w ! i else P ! i ! j)"
proof -
  from ok w r P have P2: "P2 = map2 (\<lambda>row x. row[c := x]) P w" and c: "c < ncols P"
    by (auto simp: set_col_def is_mat_def nrows_def split: if_splits)
  have cn: "c < n" using c is_mat_ncols [OF P] r by simp
  show "is_mat r n P2" unfolding P2 using P w by (auto simp: is_mat_def set_zip)
  show "P2 ! i ! j = (if j = c then w ! i else P ! i ! j)" if "i < r" "j < n"
    unfolding P2 using that P w cn by (auto simp: is_mat_def nth_list_update)
qed

lemma dot_vec_T_nth:
  assumes R: "is_mat 3 3 R" and ok: "dot_vec (np_T R) x = Inr w" and i: "i < 3"
  shows "length w = 3" and "length x = 3"
    and "w ! i = R ! 0 ! i * x ! 0 + R ! 1 ! i * x ! 1 + R ! 2 ! i * x ! 2"
proof -
  have T: "is_mat 3 3 (np_T R)" using is_mat_np_T [OF R] by simp
  from ok have w: "w = map (\<lambda>row. sum_list (map2 (*) row x)) (np_T R)"
    and lx: "ncols (np_T R) = length x"
    by (auto simp: dot_vec_def split: if_splits)
  show "length w = 3" using w T by (simp add: is_mat_def)
  show l: "length x = 3" using lx is_mat_ncols [OF T] by simp
  then obtain a b c where x: "x = [a, b, c]"
    by (cases x; cases "tl x"; cases "tl (tl x)") auto
  have row: "np_T R ! i = [R ! 0 ! i, R ! 1 ! i, R ! 2 ! i]"
  proof (rule nth_equalityI)
    show "length (np_T R ! i) = length [R ! 0 ! i, R ! 1 ! i, R ! 2 ! i]"
      using is_mat_row [OF T i] by simp
  next
    fix j assume "j < length (np_T R ! i)"
    then have j: "j < 3" using is_mat_row [OF T i] by simp
    then have "j = 0 \<or> j = 1 \<or> j = 2" by auto
    then show "np_T R ! i ! j = [R ! 0 ! i, R ! 1 ! i, R ! 2 ! i] ! j"
      using np_T_nth [OF R _ i j] by auto
  qed
  have "w ! i = sum_list (map2 (*) (np_T R ! i) x)"
    using w T i by (simp add: is_mat_def)
  then show "w ! i = R ! 0 ! i * x ! 0 + R ! 1 ! i * x ! 1 + R ! 2 ! i * x ! 2"
    unfolding row x by simp
qed

lemma project_cell_zero_row:
  assumes ok: "project_cell g u a mg faces nodes c P = Inr P2"
    and P: "is_mat 3 n P" and R: "is_mat 3 3 (rot_R mg)"
    and i: "i < 3" and col: "\<forall>j < 3. dim_mask mg ! j \<longrightarrow> rot_R mg ! j ! i = 0"
    and colc: "\<forall>j < 3. P ! j ! c = 0"
    and rowi: "\<forall>k < n. P ! i ! k = 0"
  shows "is_mat 3 n P2"
    and "\<forall>j < 3. \<forall>k < n. k \<noteq> c \<longrightarrow> P2 ! j ! k = P ! j ! k"
    and "\<forall>k < n. P2 ! i ! k = 0"
proof -
  from ok obtain v P1 w where
    s1: "set_masked_col P (dim_mask mg) c v = Inr P1" and
    s2: "dot_vec (np_T (rot_R mg)) (map (\<lambda>row. row ! c) P1) = Inr w" and
    s3: "set_col P1 c w = Inr P2"
    unfolding project_cell_def
    by (auto simp: bind_err_eq_Inr split: if_splits prod.splits)
  note k1 = set_masked_col_keeps [OF P s1]
  note d = dot_vec_T_nth [OF R s2 i]
  note k2 = set_col_entries [OF k1(1) s3 d(1)]
  show P2: "is_mat 3 n P2" using k2(1) by simp
  from s3 have "c < ncols P1" by (auto simp: set_col_def split: if_splits)
  then have c: "c < n" using is_mat_ncols [OF k1(1)] by simp
  have x: "map (\<lambda>row. row ! c) P1 ! j = P1 ! j ! c" if "j < 3" for j
    using that k1(1) by (simp add: is_mat_def)
  have term0: "rot_R mg ! j ! i * P1 ! j ! c = 0" if j: "j < 3" for j
  proof (cases "dim_mask mg ! j")
    case True
    then show ?thesis using col j by simp
  next
    case False
    then have "P1 ! j ! c = P ! j ! c" using k1(2) [OF j c] by simp
    then show ?thesis using colc j by simp
  qed
  have wi: "w ! i = 0" using d(3) x term0 by simp
  show "\<forall>j < 3. \<forall>k < n. k \<noteq> c \<longrightarrow> P2 ! j ! k = P ! j ! k"
    using k2(2) k1(2) by simp
  show "\<forall>k < n. P2 ! i ! k = 0"
  proof (intro allI impI)
    fix k assume k: "k < n"
    show "P2 ! i ! k = 0"
    proof (cases "k = c")
      case True
      then show ?thesis using k2(2) [OF _ i k] wi by simp
    next
      case False
      then have "P2 ! i ! k = P ! i ! k" using k2(2) [OF _ i k] k1(2) [OF i k] by simp
      then show ?thesis using rowi k by simp
    qed
  qed
qed

lemma project_cells_zero_row:
  assumes "project_cells (project_cell g u a mg faces nodes) cs P = Inr P2"
    and "is_mat 3 n P" and R: "is_mat 3 3 (rot_R mg)"
    and i: "i < 3" and col: "\<forall>j < 3. dim_mask mg ! j \<longrightarrow> rot_R mg ! j ! i = 0"
    and "distinct cs"
    and "\<forall>j < 3. \<forall>c \<in> set cs. c < n \<longrightarrow> P ! j ! c = 0"
    and "\<forall>k < n. P ! i ! k = 0"
  shows "is_mat 3 n P2 \<and> (\<forall>k < n. P2 ! i ! k = 0)"
  using assms(1,2,6,7,8)
proof (induction cs arbitrary: P)
  case Nil
  then show ?case by simp
next
  case (Cons c cs)
  from Cons.prems(1) obtain P1 where
    a: "project_cell g u a mg faces nodes c P = Inr P1" and
    b: "project_cells (project_cell g u a mg faces nodes) cs P1 = Inr P2"
    by (auto simp: bind_err_eq_Inr)
  have c: "c < n"
  proof -
    from a obtain v P0 w where "set_col P0 c w = Inr P1" and "is_mat 3 n P0"
      unfolding project_cell_def
      using set_masked_col_keeps(1) [OF Cons.prems(2)]
      by (auto simp: bind_err_eq_Inr split: if_splits prod.splits)
    then show ?thesis using is_mat_ncols [of 3 n P0]
      by (auto simp: set_col_def split: if_splits)
  qed
  have colc: "\<forall>j < 3. P ! j ! c = 0" using Cons.prems(4) c by simp
  note k = project_cell_zero_row [OF a Cons.prems(2) R i col colc Cons.prems(5)]
  have rest: "\<forall>j < 3. \<forall>c' \<in> set cs. c' < n \<longrightarrow> P1 ! j ! c' = 0"
  proof (intro allI impI ballI)
    fix j :: nat and c' assume j: "j < 3" and c': "c' \<in> set cs" and n: "c' < n"
    then have ne: "c' \<noteq> c" using Cons.prems(3) by auto
    have "P1 ! j ! c' = P ! j ! c'" using k(2) j ne n by simp
    then show "P1 ! j ! c' = 0" using Cons.prems(4) j c' n by simp
  qed
  from Cons.prems(3) have dc: "distinct cs" by simp
  from Cons.IH [OF b k(1) dc rest k(3)] show ?case .
qed

text \<open>
  Claim C5, as amended. Row \<open>i\<close> of the array returned by \<open>project_u\<close> is exactly zero, for
  every cell, whenever the rotation \<open>R\<close> of the geometry mapper has \<open>R[j, i] = 0\<close> for every
  active dimension \<open>j\<close>: the global axis \<open>i\<close> is orthogonal to the grid. For a grid of
  dimension \<open>d\<close> that lies along the first \<open>d\<close> axes these are the rows \<open>d..2\<close>; for a grid in
  another position the velocity is turned back into the global frame and other rows
  vanish. For a grid of dimension 0 the array has one column and every row is zero.

  No denominator of \<open>Pi\<close> may be zero: numpy then divides to \<open>inf\<close> or \<open>nan\<close>, whose product
  with the zero entries of \<open>R\<close> is \<open>nan\<close>, where the division of the model gives 0.
\<close>

theorem project_u_orthogonal_rows_zero:
  assumes R: "dim g \<noteq> 0 \<Longrightarrow> is_mat 3 3 (rot_R mg)"
    and den: "dim g \<noteq> 0 \<Longrightarrow> \<forall>c < num_cells g. \<forall>faces_loc delta_c den.
           project_den g mg (sorted_faces g) (concat (face_nodes g)) c
             = Inr (faces_loc, delta_c, den) \<longrightarrow> 0 \<notin> set den"
    and run: "project_u g u data mg = Inr P"
    and i: "i < 3"
    and col: "dim g \<noteq> 0 \<Longrightarrow> \<forall>j < 3. dim_mask mg ! j \<longrightarrow> rot_R mg ! j ! i = 0"
  shows "length P = 3 \<and> P ! i = replicate (if dim g = 0 then 1 else num_cells g) 0"
proof (cases "dim g = 0")
  case True
  then have "P = [[0], [0], [0]]" using run by (simp add: project_u_def)
  moreover have "i = 0 \<or> i = 1 \<or> i = 2" using i by auto
  ultimately show ?thesis using True by auto
next
  case False
  let ?n = "num_cells g"
  let ?P0 = "replicate 3 (replicate ?n (0::real))"
  from False run obtain p :: parameters where
    cells: "project_cells (project_cell g u (get_aperture p) mg (sorted_faces g)
                           (concat (face_nodes g))) [0..<?n] ?P0 = Inr P"
    by (auto simp: project_u_def Let_def split: option.splits)
  have P0: "is_mat 3 ?n ?P0" by (simp add: is_mat_def)
  have z1: "\<forall>j < 3. \<forall>c \<in> set [0..<?n]. c < ?n \<longrightarrow> ?P0 ! j ! c = 0" by simp
  have z2: "\<forall>k < ?n. ?P0 ! i ! k = 0" using i by simp
  have "distinct [0..<?n]" by simp
  from project_cells_zero_row [OF cells P0 R [OF False] i col [OF False] this z1 z2]
  have P: "is_mat 3 ?n P" and z: "\<forall>k < ?n. P ! i ! k = 0" by simp_all
  have "P ! i = replicate ?n 0"
  proof (rule nth_equalityI)
    show "length (P ! i) = length (replicate ?n (0::real))"
      using is_mat_row [OF P i] by simp
  next
    fix k assume "k < length (P ! i)"
    then have "k < ?n" using is_mat_row [OF P i] by simp
    then show "P ! i ! k = replicate ?n 0 ! k" using z by simp
  qed
  then show ?thesis using False P by (simp add: is_mat_def)
qed

text \<open>The two-cell grid on the \<open>x\<close> axis: the mapper turns the \<open>x\<close> axis onto the third,
  active, axis, and rows 1 and 2 of the projected velocity are zero. The grid of
  dimension 0: all three rows are zero.\<close>

theorem project_u_orthogonal_rows_zero_witness:
  "dim line_grid = 1
   \<and> rot_R line_geometry = [[0, 0, - 1], [0, 1, 0], [1, 0, 0]]
   \<and> dim_mask line_geometry = [False, False, True]
   \<and> project_den line_grid line_geometry (sorted_faces line_grid)
         (concat (face_nodes line_grid)) 0 = Inr ([0, 1], [[- (1 / 2), 1 / 2]], [- 1, 1])
   \<and> project_den line_grid line_geometry (sorted_faces line_grid)
         (concat (face_nodes line_grid)) 1 = Inr ([1, 2], [[- (1 / 2), 1 / 2]], [- 1, 1])
   \<and> project_u line_grid [1, 1, 1] (line_data None None [0, 0]) line_geometry
       = Inr [[1, 1], [0, 0], [0, 0]]
   \<and> [[1, 1], [0, 0], [0, 0 :: real]] ! 1 = replicate 2 0
   \<and> [[1, 1], [0, 0], [0, 0 :: real]] ! 2 = replicate 2 0
   \<and> dim point_grid = 0
   \<and> project_u point_grid [1] (line_data None None [0]) line_geometry = Inr [[0], [0], [0]]
   \<and> [[0], [0], [0 :: real]] ! 0 = replicate 1 0"
proof -
  let ?den = "project_den line_grid line_geometry (sorted_faces line_grid)
                (concat (face_nodes line_grid))"
  have d: "dim line_grid = 1" "num_cells line_grid = 2" by (simp_all add: line_grid_def)
  have Rv: "rot_R line_geometry = [[0, 0, - 1], [0, 1, 0], [1, 0, 0]]"
    and m: "dim_mask line_geometry = [False, False, True]"
    by (simp_all add: line_geometry_def)
  have R: "is_mat 3 3 (rot_R line_geometry)" unfolding Rv by (simp add: is_mat_def)
  have d0: "?den 0 = Inr ([0, 1], [[- (1 / 2), 1 / 2]], [- 1, 1])" by code_simp
  have d1: "?den 1 = Inr ([1, 2], [[- (1 / 2), 1 / 2]], [- 1, 1])" by code_simp
  have dens: "\<forall>c < num_cells line_grid. \<forall>faces_loc delta_c den.
           ?den c = Inr (faces_loc, delta_c, den) \<longrightarrow> 0 \<notin> set den"
  proof (intro allI impI)
    fix c faces_loc delta_c den
    assume c: "c < num_cells line_grid" and e: "?den c = Inr (faces_loc, delta_c, den)"
    from c have "c = 0 \<or> c = 1" by (auto simp: line_grid_def)
    then show "0 \<notin> set den" using e d0 d1 by auto
  qed
  have u: "project_u line_grid [1, 1, 1] (line_data None None [0, 0]) line_geometry
             = Inr [[1, 1], [0, 0], [0, 0]]"
    by code_simp
  have col: "\<forall>j < 3. dim_mask line_geometry ! j \<longrightarrow> rot_R line_geometry ! j ! i = 0"
    if "i = 1 \<or> i = 2" for i :: nat
    unfolding Rv m using that by (auto simp: less_Suc_eq numeral_3_eq_3)
  have p0: "dim point_grid = 0" by (simp add: point_grid_def)
  have up: "project_u point_grid [1] (line_data None None [0]) line_geometry
              = Inr [[0], [0], [0]]"
    by code_simp
  have i: "(0::nat) < 3" "(1::nat) < 3" "(2::nat) < 3" by simp_all
  from project_u_orthogonal_rows_zero [OF R dens u i(2) col]
       project_u_orthogonal_rows_zero [OF R dens u i(3) col]
       project_u_orthogonal_rows_zero [OF _ _ up i(1)]
       d Rv m d0 d1 u p0 up
  show ?thesis by simp
qed

text \<open>The claim as stated fails for the two-cell grid laid on the \<open>y\<close> axis: its dimension is
  1, and row 1 of the projected velocity is not zero.\<close>

theorem project_u_rows_counterexample:
  "dim line_grid = 1
   \<and> project_u line_grid [1, 1, 1] (line_data None None [0, 0]) line_geometry_y
       = Inr [[0, 0], [1, 1], [0, 0]]
   \<and> [[0, 0], [1, 1], [0, 0 :: real]] ! 1 ! 0 \<noteq> 0"
  by code_simp

subsection \<open>massHdiv\<close>

lemma sum_list_upt_sum: "sum_list (map f [0..<n]) = (\<Sum>k<n. f k)"
  by (simp add: interv_sum_list_conv_sum_set_nat atLeast0LessThan)

lemma mat_mul_shape:
  assumes "is_mat r k A" and "is_mat k c B" and "0 < k"
  shows "is_mat r c (mat_mul A B)"
  using assms by (simp add: mat_mul_def is_mat_nrows is_mat_ncols)

lemma mat_mul_nth:
  assumes "is_mat r k A" and "is_mat k c B" and "0 < r" and "0 < k" and "i < r" and "j < c"
  shows "mat_mul A B ! i ! j = (\<Sum>l<k. A ! i ! l * B ! l ! j)"
  using assms by (simp add: mat_mul_def is_mat_nrows is_mat_ncols sum_list_upt_sum)

lemma dot_mat_mul:
  assumes "is_mat r k A" and "is_mat k c B" and "0 < r"
  shows "dot A B = Inr (mat_mul A B)"
  using assms by (simp add: dot_def is_mat_nrows is_mat_ncols)

lemma mat_mul_assoc:
  assumes A: "is_mat r k A" and B: "is_mat k l B" and C: "is_mat l c C"
    and pos: "0 < r" "0 < k" "0 < l"
  shows "mat_mul (mat_mul A B) C = mat_mul A (mat_mul B C)"
proof (rule mat_eqI [of r c])
  have AB: "is_mat r l (mat_mul A B)" using mat_mul_shape [OF A B pos(2)] .
  have BC: "is_mat k c (mat_mul B C)" using mat_mul_shape [OF B C pos(3)] .
  show "is_mat r c (mat_mul (mat_mul A B) C)" using mat_mul_shape [OF AB C pos(3)] .
  show "is_mat r c (mat_mul A (mat_mul B C))" using mat_mul_shape [OF A BC pos(2)] .
  fix i j assume i: "i < r" and j: "j < c"
  have "mat_mul (mat_mul A B) C ! i ! j = (\<Sum>q<l. mat_mul A B ! i ! q * C ! q ! j)"
    using mat_mul_nth [OF AB C pos(1,3) i j] .
  also have "\<dots> = (\<Sum>q<l. (\<Sum>p<k. A ! i ! p * B ! p ! q) * C ! q ! j)"
    using mat_mul_nth [OF A B pos(1,2) i] by simp
  also have "\<dots> = (\<Sum>q<l. \<Sum>p<k. A ! i ! p * B ! p ! q * C ! q ! j)"
    by (simp add: sum_distrib_right)
  also have "\<dots> = (\<Sum>p<k. \<Sum>q<l. A ! i ! p * B ! p ! q * C ! q ! j)"
    by (rule sum.swap)
  also have "\<dots> = (\<Sum>p<k. A ! i ! p * (\<Sum>q<l. B ! p ! q * C ! q ! j))"
    by (simp add: sum_distrib_left mult.assoc)
  also have "\<dots> = (\<Sum>p<k. A ! i ! p * mat_mul B C ! p ! j)"
    using mat_mul_nth [OF B C pos(2,3) _ j] by simp
  also have "\<dots> = mat_mul A (mat_mul B C) ! i ! j"
    using mat_mul_nth [OF A BC pos(1,2) i j] by simp
  finally show "mat_mul (mat_mul A B) C ! i ! j = mat_mul A (mat_mul B C) ! i ! j" .
qed

lemma np_T_mat_mul:
  assumes A: "is_mat r k A" and B: "is_mat k c B" and pos: "0 < r" "0 < k" "0 < c"
  shows "np_T (mat_mul A B) = mat_mul (np_T B) (np_T A)"
proof (rule mat_eqI [of c r])
  have AB: "is_mat r c (mat_mul A B)" using mat_mul_shape [OF A B pos(2)] .
  have TA: "is_mat k r (np_T A)" using is_mat_np_T [OF A pos(1)] .
  have TB: "is_mat c k (np_T B)" using is_mat_np_T [OF B pos(2)] .
  show "is_mat c r (np_T (mat_mul A B))" using is_mat_np_T [OF AB pos(1)] .
  show "is_mat c r (mat_mul (np_T B) (np_T A))" using mat_mul_shape [OF TB TA pos(2)] .
  fix i j assume i: "i < c" and j: "j < r"
  have "np_T (mat_mul A B) ! i ! j = mat_mul A B ! j ! i"
    using np_T_nth [OF AB pos(1) i j] .
  also have "\<dots> = (\<Sum>l<k. A ! j ! l * B ! l ! i)"
    using mat_mul_nth [OF A B pos(1,2) j i] .
  also have "\<dots> = (\<Sum>l<k. np_T B ! i ! l * np_T A ! l ! j)"
    using np_T_nth [OF A pos(1) _ j] np_T_nth [OF B pos(2) i] by (simp add: mult.commute)
  also have "\<dots> = mat_mul (np_T B) (np_T A) ! i ! j"
    using mat_mul_nth [OF TB TA pos(3,2) i j] by simp
  finally show "np_T (mat_mul A B) ! i ! j = mat_mul (np_T B) (np_T A) ! i ! j" .
qed

lemma np_T_np_T:
  assumes A: "is_mat r c A" and pos: "0 < r" "0 < c"
  shows "np_T (np_T A) = A"
proof (rule mat_eqI [of r c])
  have T: "is_mat c r (np_T A)" using is_mat_np_T [OF A pos(1)] .
  show "is_mat r c (np_T (np_T A))" using is_mat_np_T [OF T pos(2)] .
  show "is_mat r c A" using A .
  fix i j assume "i < r" "j < c"
  then show "np_T (np_T A) ! i ! j = A ! i ! j"
    using np_T_nth [OF T pos(2)] np_T_nth [OF A pos(1)] by simp
qed

text \<open>The product \<open>P\<^sup>T S P\<close> is symmetric when \<open>S\<close> is.\<close>

lemma congruence_symmetric:
  assumes P: "is_mat n m P" and S: "is_mat n n S" and sym: "np_T S = S"
    and pos: "0 < n" "0 < m"
  shows "np_T (mat_mul (np_T P) (mat_mul S P)) = mat_mul (np_T P) (mat_mul S P)"
proof -
  have TP: "is_mat m n (np_T P)" using is_mat_np_T [OF P pos(1)] .
  have SP: "is_mat n m (mat_mul S P)" using mat_mul_shape [OF S P pos(1)] .
  have "np_T (mat_mul (np_T P) (mat_mul S P)) = mat_mul (np_T (mat_mul S P)) (np_T (np_T P))"
    using np_T_mat_mul [OF TP SP pos(2,1,2)] .
  also have "\<dots> = mat_mul (mat_mul (np_T P) (np_T S)) P"
    using np_T_mat_mul [OF S P pos(1,1,2)] np_T_np_T [OF P pos] by simp
  also have "\<dots> = mat_mul (np_T P) (mat_mul S P)"
    using mat_mul_assoc [OF TP S P pos(2,1,1)] sym by simp
  finally show ?thesis .
qed

lemma mat_div_nth:
  assumes "is_mat r c A" and "i < r" and "j < c"
  shows "mat_div A s ! i ! j = A ! i ! j / s"
  using assms by (simp add: mat_div_def is_mat_def)

lemma is_mat_mat_div: "is_mat r c A \<Longrightarrow> is_mat r c (mat_div A s)"
  by (auto simp: mat_div_def is_mat_def)

lemma ncols_is_mat_mult:
  assumes "is_mat (m * r) (m * c) A" and "0 < r"
  shows "ncols A = m * c"
proof (cases "m = 0")
  case True
  then show ?thesis using assms by (simp add: is_mat_def ncols_def)
next
  case False
  then show ?thesis using is_mat_ncols [OF assms(1)] assms(2) by simp
qed

lemma block_diag_replicate:
  assumes B: "is_mat r c B" and pos: "0 < r" "0 < c"
  shows "is_mat (m * r) (m * c) (block_diag (replicate m B))
       \<and> (\<forall>i < m * r. \<forall>j < m * c.
            block_diag (replicate m B) ! i ! j
              = (if i div r = j div c then B ! (i mod r) ! (j mod c) else 0))"
proof (induction m)
  case 0
  then show ?case by (simp add: is_mat_def)
next
  case (Suc m)
  let ?rest = "block_diag (replicate m B)"
  let ?top = "map (\<lambda>row. row @ replicate (m * c) 0) B"
  let ?bot = "map (\<lambda>row. replicate c 0 @ row) ?rest"
  from Suc.IH have rest: "is_mat (m * r) (m * c) ?rest"
    and ent: "\<And>i j. i < m * r \<Longrightarrow> j < m * c \<Longrightarrow>
            ?rest ! i ! j = (if i div r = j div c then B ! (i mod r) ! (j mod c) else 0)"
    by simp_all
  have nc: "ncols ?rest = m * c" using ncols_is_mat_mult [OF rest pos(1)] .
  have ncB: "ncols B = c" using is_mat_ncols [OF B pos(1)] .
  have bd: "block_diag (replicate (Suc m) B) = ?top @ ?bot"
    by (simp add: Let_def nc ncB)
  have lB: "length B = r" and lrest: "length ?rest = m * r"
    using B rest by (simp_all add: is_mat_def)
  have shape: "is_mat (Suc m * r) (Suc m * c) (?top @ ?bot)"
    using B rest by (auto simp: is_mat_def)
  have entries: "(?top @ ?bot) ! i ! j
      = (if i div r = j div c then B ! (i mod r) ! (j mod c) else 0)"
    if i: "i < Suc m * r" and j: "j < Suc m * c" for i j
  proof (cases "i < r")
    case True
    then have row: "(?top @ ?bot) ! i = B ! i @ replicate (m * c) 0"
      using lB by (simp add: nth_append)
    have lrow: "length (B ! i) = c" using is_mat_row [OF B True] .
    show ?thesis
    proof (cases "j < c")
      case True
      then show ?thesis using row lrow \<open>i < r\<close> by (simp add: nth_append)
    next
      case False
      then have "j div c \<noteq> 0" using pos(2) by (simp add: div_eq_0_iff)
      moreover have "j - c < m * c" using j False by simp
      ultimately show ?thesis using row lrow \<open>i < r\<close> False by (simp add: nth_append)
    qed
  next
    case False
    then have ir: "i - r < m * r" using i by simp
    have row: "(?top @ ?bot) ! i = replicate c 0 @ ?rest ! (i - r)"
      using False lB lrest ir by (simp add: nth_append)
    have idiv: "i div r = Suc ((i - r) div r)" and imod: "i mod r = (i - r) mod r"
      using False pos(1) by (simp_all add: le_div_geq le_mod_geq)
    show ?thesis
    proof (cases "j < c")
      case True
      then show ?thesis using row idiv by (simp add: nth_append)
    next
      case False
      then have jc: "j - c < m * c" using j by simp
      have jdiv: "j div c = Suc ((j - c) div c)" and jmod: "j mod c = (j - c) mod c"
        using False pos(2) by (simp_all add: le_div_geq le_mod_geq)
      show ?thesis using row False ent [OF ir jc] idiv imod jdiv jmod
        by (simp add: nth_append)
    qed
  qed
  show ?case unfolding bd using shape entries by blast
qed

lemma fold_mat_add:
  assumes "\<forall>it \<in> set its. is_mat n n (D it)" and "is_mat n n H"
  shows "is_mat n n (fold (\<lambda>it H. mat_add H (D it)) its H)
       \<and> (\<forall>i < n. \<forall>j < n. fold (\<lambda>it H. mat_add H (D it)) its H ! i ! j
             = H ! i ! j + sum_list (map (\<lambda>it. D it ! i ! j) its))"
  using assms
proof (induction its arbitrary: H)
  case Nil
  then show ?case by simp
next
  case (Cons a its)
  have Da: "is_mat n n (D a)" using Cons.prems(1) by simp
  have H': "is_mat n n (mat_add H (D a))" using is_mat_mat_add [OF Cons.prems(2) Da] .
  have rest: "\<forall>it \<in> set its. is_mat n n (D it)" using Cons.prems(1) by simp
  from Cons.IH [OF rest H'] mat_add_nth [OF Cons.prems(2) Da]
  show ?case by (simp add: add.assoc)
qed

lemma arange_step_HB:
  assumes "0 < d"
  shows "arange_step (d * (d + 1)) d = map (\<lambda>k. k * d) [0..<d + 1]"
proof -
  have "(d * (d + 1) + d - 1) div d = d + 1"
  proof (rule div_nat_eqI)
    show "d * (d + 1) \<le> d * (d + 1) + d - 1" using assms by simp
    show "d * (d + 1) + d - 1 < d * Suc (d + 1)" using assms by simp
  qed
  then show ?thesis by (simp add: arange_step_def)
qed

lemma diagflat_ones:
  assumes "it \<le> n"
  shows "is_mat n n (diagflat (replicate (n - it) 1) it)"
    and "i < n \<Longrightarrow> j < n \<Longrightarrow>
         diagflat (replicate (n - it) 1) it ! i ! j = (if j = i + it then 1 else 0)"
  using assms by (auto simp: diagflat_def)

lemma band_sum:
  fixes d i j :: nat
  assumes d: "0 < d" and i: "i < d * (d + 1)" and j: "j < d * (d + 1)"
  shows "(\<Sum>k<d + 1. if j = i + k * d then (1::real) else 0)
         = (if i \<le> j \<and> i mod d = j mod d then 1 else 0)"
proof -
  let ?k0 = "(j - i) div d"
  have k0: "?k0 < d + 1"
  proof -
    have "j - i < d * (d + 1)" using j by simp
    then have "(j - i) div d < d + 1"
      using d by (simp add: less_mult_imp_div_less mult.commute)
    then show ?thesis .
  qed
  have eq: "(if j = i + k * d then (1::real) else 0)
            = (if k = ?k0 then (if j = i + ?k0 * d then 1 else 0) else 0)" for k
    using d by auto
  have "(\<Sum>k<d + 1. if j = i + k * d then (1::real) else 0)
        = (\<Sum>k<d + 1. if k = ?k0 then (if j = i + ?k0 * d then 1 else 0) else 0)"
    using eq by simp
  also have "\<dots> = (if j = i + ?k0 * d then 1 else 0)"
    using k0 by (simp add: sum.delta)
  also have "\<dots> = (if i \<le> j \<and> i mod d = j mod d then 1 else 0)"
  proof -
    have "j = i + ?k0 * d \<longleftrightarrow> i \<le> j \<and> i mod d = j mod d"
    proof
      assume e: "j = i + ?k0 * d"
      then have "i \<le> j" by simp
      moreover have "j mod d = i mod d" by (subst e) simp
      ultimately show "i \<le> j \<and> i mod d = j mod d" by simp
    next
      assume a: "i \<le> j \<and> i mod d = j mod d"
      then have "d dvd j - i" using mod_eq_dvd_iff_nat [of i j d] by simp
      then have "?k0 * d = j - i" by simp
      then show "j = i + ?k0 * d" using a by simp
    qed
    then show ?thesis by simp
  qed
  finally show ?thesis .
qed

lemma HB_matrix_entries:
  assumes d: "0 < d"
  shows "is_mat (d * (d + 1)) (d * (d + 1)) (HB_matrix d)"
    and "i < d * (d + 1) \<Longrightarrow> j < d * (d + 1) \<Longrightarrow>
         HB_matrix d ! i ! j
           = (if i mod d = j mod d then (if i = j then 2 else 1) else 0)
             / real (d * d * (d + 1) * (d + 2))"
proof -
  let ?n = "d * (d + 1)"
  let ?D = "\<lambda>it. diagflat (replicate (?n - it) 1) it"
  let ?its = "map (\<lambda>k. k * d) [0..<d + 1]"
  let ?HB0 = "fold (\<lambda>it HB. mat_add HB (?D it)) ?its (mk_mat ?n ?n (\<lambda>i j. 0))"
  have n: "0 < ?n" using d by simp
  have its: "\<forall>it \<in> set ?its. it \<le> ?n"
  proof
    fix it assume "it \<in> set ?its"
    then obtain k where k: "k \<le> d" "it = k * d" by auto
    then have "it \<le> d * d" by simp
    then show "it \<le> ?n" by simp
  qed
  then have Ds: "\<forall>it \<in> set ?its. is_mat ?n ?n (?D it)" using diagflat_ones(1) by blast
  note f = fold_mat_add [OF Ds is_mat_mk_mat [of ?n ?n "\<lambda>i j. 0"]]
  have HB0: "is_mat ?n ?n ?HB0" using f by blast
  have e0: "?HB0 ! i ! j = (if i \<le> j \<and> i mod d = j mod d then 1 else 0)"
    if i: "i < ?n" and j: "j < ?n" for i j
  proof -
    have "?HB0 ! i ! j = sum_list (map (\<lambda>it. ?D it ! i ! j) ?its)"
      using f i j by simp
    also have "\<dots> = sum_list (map (\<lambda>k. if j = i + k * d then 1 else 0) [0..<d + 1])"
    proof -
      have "?D (k * d) ! i ! j = (if j = i + k * d then 1 else 0)" if "k < d + 1" for k
      proof -
        have "k \<le> d" using that by simp
        then have "k * d \<le> d * d" by (rule mult_le_mono1)
        moreover have "d * d \<le> ?n" by simp
        ultimately have "k * d \<le> ?n" by (rule order_trans)
        from diagflat_ones(2) [OF this i j] show ?thesis .
      qed
      then have "map (\<lambda>k. ?D (k * d) ! i ! j) [0..<d + 1]
                 = map (\<lambda>k. if j = i + k * d then 1 else 0) [0..<d + 1]"
        by (intro map_cong [OF refl]) (simp del: upt_Suc)
      moreover have "map (\<lambda>it. ?D it ! i ! j) ?its = map (\<lambda>k. ?D (k * d) ! i ! j) [0..<d + 1]"
        by (simp only: map_map comp_def)
      ultimately show ?thesis by (simp only:)
    qed
    also have "\<dots> = (\<Sum>k<d + 1. if j = i + k * d then 1 else 0)"
      by (rule sum_list_upt_sum)
    also have "\<dots> = (if i \<le> j \<and> i mod d = j mod d then 1 else 0)"
      using band_sum [OF d i j] .
    finally show ?thesis .
  qed
  have T: "is_mat ?n ?n (np_T ?HB0)" using is_mat_np_T [OF HB0 n] .
  have HB1: "is_mat ?n ?n (mat_add ?HB0 (np_T ?HB0))" using is_mat_mat_add [OF HB0 T] .
  have def: "HB_matrix d = mat_div (mat_add ?HB0 (np_T ?HB0)) (real (d * d * (d + 1) * (d + 2)))"
    unfolding HB_matrix_def Let_def arange_step_HB [OF d] ..
  show "is_mat ?n ?n (HB_matrix d)" unfolding def using HB1 by (rule is_mat_mat_div)
  show "HB_matrix d ! i ! j
           = (if i mod d = j mod d then (if i = j then 2 else 1) else 0)
             / real (d * d * (d + 1) * (d + 2))"
    if i: "i < ?n" and j: "j < ?n"
  proof -
    have "mat_add ?HB0 (np_T ?HB0) ! i ! j = ?HB0 ! i ! j + ?HB0 ! j ! i"
      using mat_add_nth [OF HB0 T i j] np_T_nth [OF HB0 n i j] by simp
    also have "\<dots> = (if i mod d = j mod d then (if i = j then 2 else 1) else 0)"
      using e0 [OF i j] e0 [OF j i] by auto
    finally show ?thesis unfolding def using mat_div_nth [OF HB1 i j] by simp
  qed
qed

lemma div_mod_unique:
  fixes d l a b :: nat
  assumes "0 < d" and "b < d"
  shows "l div d = a \<and> l mod d = b \<longleftrightarrow> l = a * d + b"
proof
  assume "l div d = a \<and> l mod d = b"
  then show "l = a * d + b" using div_mult_mod_eq [of l d] by auto
next
  assume "l = a * d + b"
  then show "l div d = a \<and> l mod d = b" using assms by simp
qed

lemma weighted_inverse_symmetric:
  assumes d: "0 < d" and X: "is_mat d d X"
    and symX: "\<And>p q. p < d \<Longrightarrow> q < d \<Longrightarrow> X ! p ! q = X ! q ! p"
  shows "is_mat (d * (d + 1)) (d * (d + 1))
           (mat_mul (HB_matrix d) (mat_div (block_diag (replicate (d + 1) X)) vol))"
    and "np_T (mat_mul (HB_matrix d) (mat_div (block_diag (replicate (d + 1) X)) vol))
         = mat_mul (HB_matrix d) (mat_div (block_diag (replicate (d + 1) X)) vol)"
proof -
  let ?n = "d * (d + 1)"
  let ?den = "real (d * d * (d + 1) * (d + 2))"
  let ?B = "block_diag (replicate (d + 1) X)"
  let ?T = "mat_div ?B vol"
  let ?S = "mat_mul (HB_matrix d) ?T"
  let ?c = "\<lambda>i j. (if i div d = j div d then 2 else 1) / ?den * (X ! (i mod d) ! (j mod d) / vol)"
  have n: "0 < ?n" using d by simp
  have nn: "(d + 1) * d = ?n" by (simp add: mult.commute)
  note bd = block_diag_replicate [OF X d d, of "d + 1", unfolded nn]
  have B: "is_mat ?n ?n ?B" using bd by blast
  have T: "is_mat ?n ?n ?T" using B by (rule is_mat_mat_div)
  have Te: "?T ! l ! j = (if l div d = j div d then X ! (l mod d) ! (j mod d) else 0) / vol"
    if "l < ?n" "j < ?n" for l j
    using mat_div_nth [OF B that] bd that by simp
  note HB = HB_matrix_entries [OF d]
  show S: "is_mat ?n ?n ?S" using mat_mul_shape [OF HB(1) T n] .
  have Se: "?S ! i ! j = ?c i j" if i: "i < ?n" and j: "j < ?n" for i j
  proof -
    let ?l = "(j div d) * d + i mod d"
    have jd: "j div d < d + 1"
      using j d by (simp add: less_mult_imp_div_less mult.commute)
    have ld: "i mod d < d" using d by simp
    have l: "?l < ?n"
    proof -
      have "?l < (j div d) * d + d" using ld by simp
      also have "\<dots> = (j div d + 1) * d" by simp
      also have "\<dots> \<le> (d + 1) * d" using jd by (intro mult_le_mono1) simp
      finally show ?thesis by (simp add: mult.commute)
    qed
    have tm: "HB_matrix d ! i ! k * ?T ! k ! j = (if k = ?l then ?c i j else 0)"
      if k: "k < ?n" for k
    proof (cases "k = ?l")
      case True
      have "i = ?l \<longleftrightarrow> i div d = j div d"
        using div_mod_unique [OF d ld, of i "j div d"] by auto
      then show ?thesis using True HB(2) [OF i k] Te [OF k j] d by auto
    next
      case False
      then have "\<not> (k div d = j div d \<and> k mod d = i mod d)"
        using div_mod_unique [OF d ld, of k "j div d"] by simp
      then show ?thesis using False HB(2) [OF i k] Te [OF k j] by auto
    qed
    have "?S ! i ! j = (\<Sum>k<?n. HB_matrix d ! i ! k * ?T ! k ! j)"
      using mat_mul_nth [OF HB(1) T n n i j] .
    also have "\<dots> = (\<Sum>k<?n. if k = ?l then ?c i j else 0)"
      using tm by (intro sum.cong) simp_all
    also have "\<dots> = ?c i j" using l by (simp add: sum.delta)
    finally show ?thesis .
  qed
  show "np_T ?S = ?S"
  proof (rule mat_eqI [of ?n ?n])
    show "is_mat ?n ?n (np_T ?S)" using is_mat_np_T [OF S n] .
    show "is_mat ?n ?n ?S" using S .
    fix i j assume i: "i < ?n" and j: "j < ?n"
    have "np_T ?S ! i ! j = ?S ! j ! i" using np_T_nth [OF S n i j] .
    also have "\<dots> = ?c j i" using Se [OF j i] .
    also have "\<dots> = ?c i j" using symX [of "j mod d" "i mod d"] d by auto
    also have "\<dots> = ?S ! i ! j" using Se [OF i j] by simp
    finally show "np_T ?S ! i ! j = ?S ! i ! j" .
  qed
qed

lemma list1: "length xs = 1 \<Longrightarrow> \<exists>a. xs = [a]"
  by (cases xs) auto

lemma list2: "length xs = 2 \<Longrightarrow> \<exists>a b. xs = [a, b]"
  by (cases xs; cases "tl xs") auto

lemma list3: "length xs = 3 \<Longrightarrow> \<exists>a b c. xs = [a, b, c]"
  by (cases xs; cases "tl xs"; cases "tl (tl xs)") auto

lemma is_mat_1:
  assumes "is_mat 1 1 K"
  shows "\<exists>a. K = [[a]]"
proof -
  from assms obtain r where K: "K = [r]" using list1 [of K] by (auto simp: is_mat_def)
  with assms obtain a where "r = [a]" using list1 [of r] by (auto simp: is_mat_def)
  with K show ?thesis by simp
qed

lemma is_mat_2:
  assumes "is_mat 2 2 K"
  shows "\<exists>a b c e. K = [[a, b], [c, e]]"
proof -
  from assms obtain r s where K: "K = [r, s]" using list2 [of K] by (auto simp: is_mat_def)
  with assms obtain a b where r: "r = [a, b]" using list2 [of r] by (auto simp: is_mat_def)
  from K assms obtain c e where "s = [c, e]" using list2 [of s] by (auto simp: is_mat_def)
  with K r show ?thesis by simp
qed

lemma is_mat_3:
  assumes "is_mat 3 3 K"
  shows "\<exists>a b c e f g h k l. K = [[a, b, c], [e, f, g], [h, k, l]]"
proof -
  from assms obtain r s t where K: "K = [r, s, t]" using list3 [of K] by (auto simp: is_mat_def)
  with assms obtain a b c where r: "r = [a, b, c]" using list3 [of r] by (auto simp: is_mat_def)
  from K assms obtain e f g where s: "s = [e, f, g]" using list3 [of s] by (auto simp: is_mat_def)
  from K assms obtain h k l where "t = [h, k, l]" using list3 [of t] by (auto simp: is_mat_def)
  with K r s show ?thesis by simp
qed

lemma upt_3: "[0..<3] = [0, 1, 2]" and upt_2: "[0..<2] = [0, 1]" and upt_1: "[0..<1] = [0]"
  by (simp_all add: upt_conv_Cons)

lemma det1: "det [[a]] = a"
  by (simp add: remove_nth_def)

lemma det0: "det [] = 1"
  by simp

lemma det2: "det [[a, b], [c, e]] = a * e - b * c"
  by (simp add: remove_nth_def upt_conv_Cons del: upt_Suc)

lemma det3:
  "det [[a, b, c], [e, f, g], [h, k, l]]
     = a * (f * l - g * k) - b * (e * l - g * h) + c * (e * k - f * h)"
  by (simp add: remove_nth_def upt_conv_Cons del: upt_Suc)


declare det.simps [simp del]

lemma np_T_2: "np_T [[a, b], [c, e]] = [[a, c], [b, e]]"
  by (simp add: np_T_def mk_mat_def ncols_def nrows_def upt_conv_Cons del: upt_Suc)

lemma np_T_3:
  "np_T [[a, b, c], [e, f, g], [h, k, l]] = [[a, e, h], [b, f, k], [c, g, l]]"
  by (simp add: np_T_def mk_mat_def ncols_def nrows_def upt_conv_Cons del: upt_Suc)

lemma less_2_cases: "(p::nat) < 2 \<Longrightarrow> p = 0 \<or> p = 1"
  by auto

lemma less_3_cases: "(p::nat) < 3 \<Longrightarrow> p = 0 \<or> p = 1 \<or> p = 2"
  by auto

lemma quad_form_1: "quad_form [[a]] [x] = x * (a * x)"
  by (simp add: quad_form_def)

lemma quad_form_2:
  "quad_form [[a, b], [c, e]] [x, y] = x * (a * x + b * y) + y * (c * x + e * y)"
  by (simp add: quad_form_def)

lemma quad_form_3:
  "quad_form [[a, b, c], [e, f, g], [h, k, l]] [x, y, z]
     = x * (a * x + b * y + c * z) + y * (e * x + f * y + g * z) + z * (h * x + k * y + l * z)"
  by (simp add: quad_form_def algebra_simps)

lemma pos_def_det_1:
  assumes "pos_def [[a]]"
  shows "0 < det [[a]]"
proof -
  from assms have "0 < quad_form [[a]] [1]" unfolding pos_def_def by simp
  then show ?thesis by (simp add: quad_form_1 det1)
qed

lemma pos_def_det_2:
  assumes "pos_def [[a, b], [b, e]]"
  shows "0 < det [[a, b], [b, e]]"
proof -
  from assms have "0 < quad_form [[a, b], [b, e]] [1, 0]" unfolding pos_def_def by simp
  then have a: "0 < a" by (simp add: quad_form_2)
  then have "\<exists>v \<in> set [- b, a]. v \<noteq> 0" by simp
  with assms have "0 < quad_form [[a, b], [b, e]] [- b, a]" unfolding pos_def_def by simp
  also have "quad_form [[a, b], [b, e]] [- b, a] = a * (a * e - b * b)"
    by (simp add: quad_form_2 algebra_simps)
  finally have "0 < a * e - b * b" using a by (simp add: zero_less_mult_iff)
  then show ?thesis by (simp add: det2)
qed

lemma pos_def_det_3:
  assumes "pos_def [[a, b, c], [b, e, f], [c, f, l]]"
  shows "0 < det [[a, b, c], [b, e, f], [c, f, l]]"
proof -
  let ?K = "[[a, b, c], [b, e, f], [c, f, l]]"
  let ?m = "a * e - b * b"
  from assms have "0 < quad_form ?K [1, 0, 0]" unfolding pos_def_def by simp
  then have a: "0 < a" by (simp add: quad_form_3)
  then have "\<exists>v \<in> set [- b, a, 0]. v \<noteq> 0" by simp
  with assms have "0 < quad_form ?K [- b, a, 0]" unfolding pos_def_def by simp
  also have "quad_form ?K [- b, a, 0] = a * ?m"
    by (simp add: quad_form_3 algebra_simps)
  finally have m: "0 < ?m" using a by (simp add: zero_less_mult_iff)
  then have "\<exists>v \<in> set [b * f - c * e, - (a * f - b * c), ?m]. v \<noteq> 0" by simp
  with assms have "0 < quad_form ?K [b * f - c * e, - (a * f - b * c), ?m]"
    unfolding pos_def_def by simp
  also have "quad_form ?K [b * f - c * e, - (a * f - b * c), ?m] = ?m * det ?K"
    by (simp add: quad_form_3 det3 algebra_simps)
  finally show ?thesis using m by (simp add: zero_less_mult_iff)
qed

lemma linalg_inv_nonsingular:
  assumes "is_mat d d K" and "det K \<noteq> 0"
  shows "linalg_inv K = Inr (mk_mat d d (\<lambda>i j. (- 1) ^ (i + j) * det (minor K j i) / det K))"
proof -
  have "length K = d" using assms(1) by (simp add: is_mat_def)
  then show ?thesis using assms by (simp add: linalg_inv_def)
qed

lemma minor_symmetric_1: "p < 1 \<Longrightarrow> q < 1 \<Longrightarrow> det (minor [[a]] q p) = det (minor [[a]] p q)"
  by simp

lemma minor_symmetric_2:
  assumes "p < 2" and "q < 2"
  shows "det (minor [[a, b], [b, e]] q p) = det (minor [[a, b], [b, e]] p q)"
  using less_2_cases [OF assms(1)] less_2_cases [OF assms(2)]
  by (auto simp: minor_def remove_nth_def det1)

lemma minor_symmetric_3:
  assumes "p < 3" and "q < 3"
  shows "det (minor [[a, b, c], [b, e, f], [c, f, l]] q p)
         = det (minor [[a, b, c], [b, e, f], [c, f, l]] p q)"
  using less_3_cases [OF assms(1)] less_3_cases [OF assms(2)]
  by (auto simp: minor_def remove_nth_def det2 numeral_2_eq_2)

lemma symmetric_inverse:
  assumes K: "is_mat d d K" and nz: "det K \<noteq> 0"
    and ms: "\<And>p q. p < d \<Longrightarrow> q < d \<Longrightarrow> det (minor K q p) = det (minor K p q)"
  shows "\<exists>X. linalg_inv K = Inr X \<and> is_mat d d X
             \<and> (\<forall>p < d. \<forall>q < d. X ! p ! q = X ! q ! p)"
proof -
  let ?X = "mk_mat d d (\<lambda>i j. (- 1) ^ (i + j) * det (minor K j i) / det K)"
  have "linalg_inv K = Inr ?X" using linalg_inv_nonsingular [OF K nz] .
  moreover have "is_mat d d ?X" by simp
  moreover have "\<forall>p < d. \<forall>q < d. ?X ! p ! q = ?X ! q ! p"
    using ms by (simp add: add.commute)
  ultimately show ?thesis by blast
qed

lemma linalg_inv_spd:
  assumes d: "1 \<le> d" "d \<le> 3" and K: "is_mat d d K" and sym: "np_T K = K"
    and pd: "pos_def K"
  shows "\<exists>X. linalg_inv K = Inr X \<and> is_mat d d X
             \<and> (\<forall>p < d. \<forall>q < d. X ! p ! q = X ! q ! p)"
proof -
  from d consider "d = 1" | "d = 2" | "d = 3" by linarith
  then show ?thesis
  proof cases
    case 1
    have "is_mat 1 1 K" using K 1 by simp
    from is_mat_1 [OF this] obtain a where k: "K = [[a]]" by blast
    have "det K \<noteq> 0" using pos_def_det_1 pd unfolding k by fastforce
    moreover have "det (minor K q p) = det (minor K p q)" if "p < d" "q < d" for p q
      using that unfolding k 1 by (rule minor_symmetric_1)
    ultimately show ?thesis using symmetric_inverse [OF K] by blast
  next
    case 2
    have "is_mat 2 2 K" using K 2 by simp
    from is_mat_2 [OF this] obtain a b c e where k0: "K = [[a, b], [c, e]]" by blast
    from sym have "[[a, c], [b, e]] = [[a, b], [c, e]]" unfolding k0 np_T_2 .
    then have "c = b" by (metis list.inject)
    then have k: "K = [[a, b], [b, e]]" using k0 by simp
    have "det K \<noteq> 0" using pos_def_det_2 pd unfolding k by fastforce
    moreover have "det (minor K q p) = det (minor K p q)" if "p < d" "q < d" for p q
      using that unfolding k 2 by (rule minor_symmetric_2)
    ultimately show ?thesis using symmetric_inverse [OF K] by blast
  next
    case 3
    have "is_mat 3 3 K" using K 3 by simp
    from is_mat_3 [OF this] obtain a b c e f g h k l where
      k0: "K = [[a, b, c], [e, f, g], [h, k, l]]" by blast
    from sym have "[[a, e, h], [b, f, k], [c, g, l]] = [[a, b, c], [e, f, g], [h, k, l]]"
      unfolding k0 np_T_3 .
    then have "e = b" "h = c" "k = g" by (metis list.inject)+
    then have k: "K = [[a, b, c], [b, f, g], [c, g, l]]" using k0 by simp
    have "det K \<noteq> 0" using pos_def_det_3 pd unfolding k by fastforce
    moreover have "det (minor K q p) = det (minor K p q)" if "p < d" "q < d" for p q
      using that unfolding k 3 by (rule minor_symmetric_3)
    ultimately show ?thesis using symmetric_inverse [OF K] by blast
  qed
qed

lemma length_concat_mat:
  assumes "is_mat r c A"
  shows "length (concat A) = r * c"
proof -
  have "map length A = replicate r c"
    using assms by (auto simp: is_mat_def intro!: nth_equalityI)
  then show ?thesis by (simp add: length_concat sum_list_replicate)
qed

lemma is_mat_take:
  assumes "is_mat r c A" and "d \<le> r"
  shows "is_mat d c (take d A)"
  using assms by (auto simp: is_mat_def dest: in_set_takeD)

lemma is_mat_col_times_ones: "is_mat (length xs) m (col_times_ones xs m)"
  by (auto simp: col_times_ones_def is_mat_def)

lemma is_mat_tile_rows:
  assumes "is_mat r c A"
  shows "is_mat (k * r) c (tile_rows A k)"
  using assms by (auto simp: tile_rows_def is_mat_def length_concat sum_list_replicate)

lemma np_sub_same_shape:
  assumes "is_mat r c A" and "is_mat r c B" and "0 < r"
  shows "\<exists>N. np_sub A B = Inr N \<and> is_mat r c N"
proof -
  have s: "nrows A = r" "nrows B = r" "ncols A = c" "ncols B = c"
    using assms by (simp_all add: is_mat_nrows is_mat_ncols)
  have "(if r = 1 then r else r) = r" "(if c = 1 then c else c) = c" by simp_all
  then show ?thesis unfolding np_sub_def Let_def s by (simp del: if_cancel)
qed

lemma massHdiv_N_shape:
  assumes d: "0 < d" and coord: "is_mat r (d + 1) coord" and r: "d \<le> r"
  shows "\<exists>N. np_sub (col_times_ones (flatten_F (take d coord)) (d + 1))
                  (tile_rows (take d coord) (d + 1)) = Inr N
             \<and> is_mat (d * (d + 1)) (d + 1) N"
proof -
  let ?c = "take d coord"
  let ?n = "d * (d + 1)"
  have c1: "is_mat d (d + 1) ?c" using is_mat_take [OF coord r] .
  have T: "is_mat (d + 1) d (np_T ?c)" using is_mat_np_T [OF c1 d] .
  have "length (flatten_F ?c) = ?n"
    unfolding flatten_F_def using length_concat_mat [OF T] by (simp add: mult.commute)
  then have A: "is_mat ?n (d + 1) (col_times_ones (flatten_F ?c) (d + 1))"
    using is_mat_col_times_ones [of "flatten_F ?c" "d + 1"] by simp
  have B: "is_mat ?n (d + 1) (tile_rows ?c (d + 1))"
    using is_mat_tile_rows [OF c1, of "d + 1"] by (simp add: mult.commute)
  have n: "0 < ?n" using d by simp
  from np_sub_same_shape [OF A B n] show ?thesis .
qed

lemma is_mat_diagflat0: "is_mat (length v) (length v) (diagflat v 0)"
  by (simp add: diagflat_def)


lemma pos_def_example: "pos_def [[2]]"
  unfolding pos_def_def
proof (intro allI impI)
  fix x :: vec
  assume a: "length x = length [[2::real]] \<and> (\<exists>v \<in> set x. v \<noteq> 0)"
  then have "length x = 1" by simp
  from list1 [OF this] obtain p where x: "x = [p]" by blast
  with a have "p \<noteq> 0" by auto
  then have "0 < p * p" by (auto simp: zero_less_mult_iff)
  then show "0 < quad_form [[2]] x" unfolding x by (simp add: quad_form_1 zero_less_mult_iff)
qed



end
